theory Spec2Isabelle
  imports Complex_Main
begin

section \<open>JavaScript numbers\<close>

text \<open>
  The program computes with JavaScript numbers. A number is modelled as a real, one of the
  two infinities, or NaN. Arithmetic on finite values is exact: the rounding of binary
  floating point (and of stores into a \<^verbatim>\<open>Float32Array\<close>), overflow to an infinity and the
  sign of zero are not modelled. The special values follow IEEE 754: NaN is absorbing,
  \<open>\<infinity> - \<infinity>\<close>, \<open>0 * \<infinity>\<close>, \<open>0 / 0\<close> and \<open>\<infinity> / \<infinity>\<close> are NaN, \<open>x / 0\<close> is an infinity
  for \<open>x \<noteq> 0\<close>, and every comparison with NaN is false.
\<close>

datatype jsnum = Fin real | PInf | NInf | NaN

instantiation jsnum :: "{zero, one, plus, minus, uminus, times, inverse, abs, sgn, ord}"
begin

definition zero_jsnum :: jsnum where
  "zero_jsnum = Fin 0"

definition one_jsnum :: jsnum where
  "one_jsnum = Fin 1"

fun plus_jsnum :: "jsnum \<Rightarrow> jsnum \<Rightarrow> jsnum" where
  "plus_jsnum (Fin a) (Fin b) = Fin (a + b)"
| "plus_jsnum NaN y = NaN"
| "plus_jsnum x NaN = NaN"
| "plus_jsnum PInf NInf = NaN"
| "plus_jsnum NInf PInf = NaN"
| "plus_jsnum PInf y = PInf"
| "plus_jsnum x PInf = PInf"
| "plus_jsnum NInf y = NInf"
| "plus_jsnum x NInf = NInf"

fun uminus_jsnum :: "jsnum \<Rightarrow> jsnum" where
  "uminus_jsnum (Fin a) = Fin (- a)"
| "uminus_jsnum PInf = NInf"
| "uminus_jsnum NInf = PInf"
| "uminus_jsnum NaN = NaN"

definition minus_jsnum :: "jsnum \<Rightarrow> jsnum \<Rightarrow> jsnum" where
  "minus_jsnum x y = (x::jsnum) + (- y)"

fun times_jsnum :: "jsnum \<Rightarrow> jsnum \<Rightarrow> jsnum" where
  "times_jsnum (Fin a) (Fin b) = Fin (a * b)"
| "times_jsnum NaN y = NaN"
| "times_jsnum x NaN = NaN"
| "times_jsnum PInf (Fin b) = (if b = 0 then NaN else if 0 < b then PInf else NInf)"
| "times_jsnum NInf (Fin b) = (if b = 0 then NaN else if 0 < b then NInf else PInf)"
| "times_jsnum (Fin a) PInf = (if a = 0 then NaN else if 0 < a then PInf else NInf)"
| "times_jsnum (Fin a) NInf = (if a = 0 then NaN else if 0 < a then NInf else PInf)"
| "times_jsnum PInf PInf = PInf"
| "times_jsnum PInf NInf = NInf"
| "times_jsnum NInf PInf = NInf"
| "times_jsnum NInf NInf = PInf"

fun divide_jsnum :: "jsnum \<Rightarrow> jsnum \<Rightarrow> jsnum" where
  "divide_jsnum (Fin a) (Fin b) =
     (if b = 0 then (if a = 0 then NaN else if 0 < a then PInf else NInf) else Fin (a / b))"
| "divide_jsnum NaN y = NaN"
| "divide_jsnum x NaN = NaN"
| "divide_jsnum (Fin a) PInf = Fin 0"
| "divide_jsnum (Fin a) NInf = Fin 0"
| "divide_jsnum PInf (Fin b) = (if 0 \<le> b then PInf else NInf)"
| "divide_jsnum NInf (Fin b) = (if 0 \<le> b then NInf else PInf)"
| "divide_jsnum PInf PInf = NaN"
| "divide_jsnum PInf NInf = NaN"
| "divide_jsnum NInf PInf = NaN"
| "divide_jsnum NInf NInf = NaN"

definition inverse_jsnum :: "jsnum \<Rightarrow> jsnum" where
  "inverse_jsnum x = (Fin 1 :: jsnum) div x"

fun abs_jsnum :: "jsnum \<Rightarrow> jsnum" where
  "abs_jsnum (Fin a) = Fin \<bar>a\<bar>"
| "abs_jsnum PInf = PInf"
| "abs_jsnum NInf = PInf"
| "abs_jsnum NaN = NaN"

fun sgn_jsnum :: "jsnum \<Rightarrow> jsnum" where
  "sgn_jsnum (Fin a) = Fin (sgn a)"
| "sgn_jsnum PInf = Fin 1"
| "sgn_jsnum NInf = Fin (- 1)"
| "sgn_jsnum NaN = NaN"

fun less_jsnum :: "jsnum \<Rightarrow> jsnum \<Rightarrow> bool" where
  "less_jsnum (Fin a) (Fin b) = (a < b)"
| "less_jsnum NaN y = False"
| "less_jsnum x NaN = False"
| "less_jsnum x NInf = False"
| "less_jsnum PInf y = False"
| "less_jsnum NInf y = True"
| "less_jsnum x PInf = True"

fun less_eq_jsnum :: "jsnum \<Rightarrow> jsnum \<Rightarrow> bool" where
  "less_eq_jsnum (Fin a) (Fin b) = (a \<le> b)"
| "less_eq_jsnum NaN y = False"
| "less_eq_jsnum x NaN = False"
| "less_eq_jsnum NInf y = True"
| "less_eq_jsnum x PInf = True"
| "less_eq_jsnum x NInf = False"
| "less_eq_jsnum PInf y = False"

instance ..

end

instance jsnum :: semigroup_add
proof
  fix a b c :: jsnum
  show "a + b + c = a + (b + c)"
    by (cases a; cases b; cases c) simp_all
qed

instance jsnum :: numeral ..

instance jsnum :: power ..

instance jsnum :: comm_monoid_add
proof
  fix a b :: jsnum
  show "a + b = b + a"
    by (cases a; cases b) simp_all
  show "0 + a = a"
    by (cases a) (simp_all add: zero_jsnum_def)
qed

fun is_fin :: "jsnum \<Rightarrow> bool" where
  "is_fin (Fin a) = True"
| "is_fin x = False"

text \<open>The functions of \<^verbatim>\<open>Math\<close> that the program calls.\<close>

fun Math_sqrt :: "jsnum \<Rightarrow> jsnum" where
  "Math_sqrt (Fin a) = (if a < 0 then NaN else Fin (sqrt a))"
| "Math_sqrt PInf = PInf"
| "Math_sqrt NInf = NaN"
| "Math_sqrt NaN = NaN"

fun Math_log10 :: "jsnum \<Rightarrow> jsnum" where
  "Math_log10 (Fin a) = (if a < 0 then NaN else if a = 0 then NInf else Fin (log 10 a))"
| "Math_log10 PInf = PInf"
| "Math_log10 NInf = NaN"
| "Math_log10 NaN = NaN"

fun Math_max :: "jsnum \<Rightarrow> jsnum \<Rightarrow> jsnum" where
  "Math_max NaN y = NaN"
| "Math_max x NaN = NaN"
| "Math_max x y = (if x < y then y else x)"

fun Math_min :: "jsnum \<Rightarrow> jsnum \<Rightarrow> jsnum" where
  "Math_min NaN y = NaN"
| "Math_min x NaN = NaN"
| "Math_min x y = (if y < x then y else x)"

fun Math_round :: "jsnum \<Rightarrow> jsnum" where
  "Math_round (Fin a) = Fin (of_int \<lfloor>a + 1 / 2\<rfloor>)"
| "Math_round x = x"

text \<open>A length or an index used as a number.\<close>

definition num_of_nat :: "nat \<Rightarrow> jsnum" where
  "num_of_nat n = Fin (of_nat n)"

text \<open>The operator \<^verbatim>\<open>%\<close> on integers: the remainder has the sign of the dividend.\<close>

definition js_rem :: "int \<Rightarrow> int \<Rightarrow> int" where
  "js_rem a b = sgn a * (\<bar>a\<bar> mod \<bar>b\<bar>)"

text \<open>
  Reading a typed array outside its bounds yields \<^verbatim>\<open>undefined\<close>, which is NaN in
  arithmetic; writing outside its bounds is ignored, as \<open>xs[i := v]\<close> is.
\<close>

definition aget :: "jsnum list \<Rightarrow> nat \<Rightarrow> jsnum" where
  "aget xs i = (if i < length xs then xs ! i else NaN)"

text \<open>The same read at an index that the program computes and that may be negative.\<close>

definition aget_int :: "jsnum list \<Rightarrow> int \<Rightarrow> jsnum" where
  "aget_int xs i = (if 0 \<le> i \<and> i < int (length xs) then xs ! nat i else NaN)"

section \<open>CircularBuffer (utils/circular-buffer.ts)\<close>

text \<open>
  Indices are integers. The operator \<^verbatim>\<open>&\<close> of JavaScript works on the 32-bit two's complement
  value of its operands; for the indices that occur here (below \<open>2^31\<close> in magnitude) that is
  the bitwise conjunction on \<open>int\<close>.
\<close>

unbundle bit_operations_syntax

record CircularBuffer =
  cb_buffer :: "jsnum list"
  cb_writeIndex :: int
  cb_readIndex :: int
  cb_size :: nat
  cb_mask :: int

text \<open>
  \<^verbatim>\<open>let power = 1; while (power < n) power *= 2; return power\<close>. The loop variable is
  positive throughout; the model keeps that in the guard so that the recursion is total.
\<close>

function nextPowerOfTwo_loop :: "nat \<Rightarrow> nat \<Rightarrow> nat" where
  "nextPowerOfTwo_loop pow n =
     (if pow < n \<and> 0 < pow then nextPowerOfTwo_loop (pow * 2) n else pow)"
  by pat_completeness auto
termination
  by (relation "measure (\<lambda>(pow, n). n - pow)") auto

declare nextPowerOfTwo_loop.simps [simp del]

definition nextPowerOfTwo :: "nat \<Rightarrow> nat" where
  "nextPowerOfTwo n = nextPowerOfTwo_loop 1 n"

definition CircularBuffer_new :: "nat \<Rightarrow> CircularBuffer" where
  "CircularBuffer_new n =
     (let sz = nextPowerOfTwo n in
      \<lparr>cb_buffer = replicate sz 0, cb_writeIndex = 0, cb_readIndex = 0,
       cb_size = sz, cb_mask = int sz - 1\<rparr>)"

text \<open>The method \<^verbatim>\<open>write\<close>; its name is taken in Isabelle.\<close>

definition write_cb :: "CircularBuffer \<Rightarrow> jsnum \<Rightarrow> CircularBuffer" where
  "write_cb b sample =
     b\<lparr>cb_buffer := (cb_buffer b)[nat (cb_writeIndex b) := sample],
       cb_writeIndex := (cb_writeIndex b + 1) AND cb_mask b\<rparr>"

fun writeBlock :: "CircularBuffer \<Rightarrow> jsnum list \<Rightarrow> CircularBuffer" where
  "writeBlock b [] = b"
| "writeBlock b (x # samples) = writeBlock (write_cb b x) samples"

definition read :: "CircularBuffer \<Rightarrow> int \<Rightarrow> jsnum" where
  "read b delay = aget (cb_buffer b) (nat ((cb_writeIndex b - 1 - delay) AND cb_mask b))"

text \<open>\<^verbatim>\<open>readBlock(output, delay)\<close> fills the caller's array \<open>output\<close> and the model returns it.\<close>

definition readBlock :: "CircularBuffer \<Rightarrow> jsnum list \<Rightarrow> int \<Rightarrow> jsnum list" where
  "readBlock b output delay =
     fold (\<lambda>i out. out[i := read b (delay + int i)]) [0..<length output] output"

definition clear :: "CircularBuffer \<Rightarrow> CircularBuffer" where
  "clear b = b\<lparr>cb_buffer := replicate (length (cb_buffer b)) 0,
                 cb_writeIndex := 0, cb_readIndex := 0\<rparr>"

text \<open>What the constructor establishes and \<open>write_cb\<close> keeps.\<close>

definition wf_cb :: "CircularBuffer \<Rightarrow> bool" where
  "wf_cb b \<longleftrightarrow>
     cb_size b = nextPowerOfTwo (cb_size b) \<and> cb_mask b = int (cb_size b) - 1 \<and>
     length (cb_buffer b) = cb_size b \<and> 0 \<le> cb_writeIndex b \<and> cb_writeIndex b < int (cb_size b)"

section \<open>NLMSProcessor (core/nlms-processor.ts)\<close>

text \<open>
  The metric fields of the class (\<^verbatim>\<open>echoReturnLoss\<close>, \<^verbatim>\<open>convergenceTime\<close>,
  \<^verbatim>\<open>lastUpdateTime\<close>) depend on the wall clock, are written by \<^verbatim>\<open>updateMetrics\<close> only and
  are read by no computation on samples; they are left out.
\<close>

record NLMSConfig =
  filterLength :: nat
  stepSize :: jsnum
  regularization :: jsnum
  leakageFactor :: jsnum

record NLMSProcessor =
  nlms_config :: NLMSConfig
  weights :: "jsnum list"
  delayLine :: "jsnum list"
  powerEstimate :: jsnum
  nlms_writeIndex :: nat

definition NLMSConfig_default :: NLMSConfig where
  "NLMSConfig_default =
     \<lparr>filterLength = 512, stepSize = 0.1, regularization = 0.000001, leakageFactor = 0.99999\<rparr>"

definition initializeFilter :: "NLMSConfig \<Rightarrow> NLMSProcessor" where
  "initializeFilter cfg =
     \<lparr>nlms_config = cfg,
      weights = replicate (filterLength cfg) 0,
      delayLine = replicate (filterLength cfg) 0,
      powerEstimate = 0.000001,
      nlms_writeIndex = 0\<rparr>"

text \<open>\<^verbatim>\<open>(this.writeIndex - i + filterLength) % filterLength\<close>\<close>

definition delayIndex :: "nat \<Rightarrow> nat \<Rightarrow> nat \<Rightarrow> nat" where
  "delayIndex wi i len = nat (js_rem (int wi - int i + int len) (int len))"

definition calculateFilterOutput :: "NLMSProcessor \<Rightarrow> jsnum" where
  "calculateFilterOutput p =
     (let len = filterLength (nlms_config p) in
      fold (\<lambda>i output.
              output + aget (weights p) i * aget (delayLine p) (delayIndex (nlms_writeIndex p) i len))
        [0..<len] 0)"

definition updateWeights :: "NLMSProcessor \<Rightarrow> jsnum \<Rightarrow> NLMSProcessor" where
  "updateWeights p errorSignal =
     (let len = filterLength (nlms_config p);
          currentSample = aget (delayLine p) (nlms_writeIndex p);
          pe = 0.95 * powerEstimate p + 0.05 * currentSample * currentSample;
          normalizedStepSize =
            stepSize (nlms_config p) / (pe * num_of_nat len + regularization (nlms_config p));
          ws = fold (\<lambda>i w.
                 w[i := leakageFactor (nlms_config p) * aget w i +
                        normalizedStepSize * errorSignal *
                          aget (delayLine p) (delayIndex (nlms_writeIndex p) i len)])
                 [0..<len] (weights p)
      in p\<lparr>weights := ws, powerEstimate := pe\<rparr>)"

text \<open>
  The body of the loop of \<^verbatim>\<open>process\<close> for one sample: the reference sample, the microphone
  sample and the flag go in, the error sample comes out.
\<close>

definition process_sample ::
    "NLMSProcessor \<Rightarrow> jsnum \<Rightarrow> jsnum \<Rightarrow> bool \<Rightarrow> NLMSProcessor \<times> jsnum" where
  "process_sample p referenceSample microphoneSample enableAdaptation =
     (let p1 = p\<lparr>delayLine := (delayLine p)[nlms_writeIndex p := referenceSample]\<rparr>;
          estimatedEcho = calculateFilterOutput p1;
          errorSignal = microphoneSample - estimatedEcho;
          p2 = (if enableAdaptation then updateWeights p1 errorSignal else p1)
      in (p2\<lparr>nlms_writeIndex := (nlms_writeIndex p2 + 1) mod filterLength (nlms_config p2)\<rparr>,
          errorSignal))"

definition process ::
    "NLMSProcessor \<Rightarrow> jsnum list \<Rightarrow> jsnum list \<Rightarrow> bool \<Rightarrow> NLMSProcessor \<times> jsnum list" where
  "process p referenceSignal microphoneSignal enableAdaptation =
     fold (\<lambda>i (p, output).
             let (p', errorSignal) =
                   process_sample p (aget referenceSignal i) (aget microphoneSignal i)
                     enableAdaptation
             in (p', output[i := errorSignal]))
       [0..<length referenceSignal] (p, replicate (length referenceSignal) 0)"

text \<open>The entry \<^verbatim>\<open>filterNorm\<close> of \<^verbatim>\<open>getMetrics\<close>: the Euclidean norm of the weights.\<close>

definition filterNorm :: "NLMSProcessor \<Rightarrow> jsnum" where
  "filterNorm p = Math_sqrt (fold (\<lambda>w sum. sum + w * w) (weights p) 0)"

text \<open>A caller that hands a sequence of blocks (reference, microphone) to \<open>process\<close>.\<close>

fun process_blocks ::
    "NLMSProcessor \<Rightarrow> (jsnum list \<times> jsnum list) list \<Rightarrow> bool \<Rightarrow> NLMSProcessor" where
  "process_blocks p [] enableAdaptation = p"
| "process_blocks p ((referenceSignal, microphoneSignal) # blocks) enableAdaptation =
     process_blocks (fst (process p referenceSignal microphoneSignal enableAdaptation))
       blocks enableAdaptation"

text \<open>The lengths fixed by \<open>initializeFilter\<close> and kept by \<open>process\<close>.\<close>

definition wf_nlms :: "NLMSProcessor \<Rightarrow> bool" where
  "wf_nlms p \<longleftrightarrow>
     0 < filterLength (nlms_config p) \<and>
     length (weights p) = filterLength (nlms_config p) \<and>
     length (delayLine p) = filterLength (nlms_config p) \<and>
     nlms_writeIndex p < filterLength (nlms_config p)"

section \<open>DoubleTalkDetector (core/double-talk-detector.ts)\<close>

record DoubleTalkConfig =
  powerRatioThreshold :: jsnum
  correlationThreshold :: jsnum
  hangoverTime :: int
  windowSize :: nat

datatype TalkState = IDLE | SINGLE_TALK | DOUBLE_TALK | HOLD

record DoubleTalkDetector =
  dtd_config :: DoubleTalkConfig
  dtd_state :: TalkState
  hangoverCounter :: int
  nearEndPower :: jsnum
  farEndPower :: jsnum
  crossPower :: jsnum
  nearEndBuffer :: "jsnum list"
  farEndBuffer :: "jsnum list"
  dtd_bufferIndex :: nat

definition DoubleTalkConfig_default :: DoubleTalkConfig where
  "DoubleTalkConfig_default =
     \<lparr>powerRatioThreshold = 2, correlationThreshold = 0.6, hangoverTime = 2400,
      windowSize = 512\<rparr>"

definition DoubleTalkDetector_new :: "DoubleTalkConfig \<Rightarrow> DoubleTalkDetector" where
  "DoubleTalkDetector_new cfg =
     \<lparr>dtd_config = cfg, dtd_state = IDLE, hangoverCounter = 0,
      nearEndPower = 0.0000000001, farEndPower = 0.0000000001, crossPower = 0.0000000001,
      nearEndBuffer = replicate (windowSize cfg) 0,
      farEndBuffer = replicate (windowSize cfg) 0,
      dtd_bufferIndex = 0\<rparr>"

definition updatePowerEstimates ::
    "DoubleTalkDetector \<Rightarrow> jsnum list \<Rightarrow> jsnum list \<Rightarrow> DoubleTalkDetector" where
  "updatePowerEstimates d nearEnd farEnd =
     (let alpha = 0.95;
          (nearPower, farPower, crossPower') =
             fold (\<lambda>i (np, fp, cp).
                     (np + aget nearEnd i * aget nearEnd i,
                      fp + aget farEnd i * aget farEnd i,
                      cp + aget nearEnd i * aget farEnd i))
               [0..<length nearEnd] (0, 0, 0);
          nearPower = nearPower / num_of_nat (length nearEnd);
          farPower = farPower / num_of_nat (length farEnd);
          crossPower' = crossPower' / num_of_nat (length nearEnd)
      in d\<lparr>nearEndPower := alpha * nearEndPower d + (1 - alpha) * nearPower,
            farEndPower := alpha * farEndPower d + (1 - alpha) * farPower,
            crossPower := alpha * crossPower d + (1 - alpha) * crossPower'\<rparr>)"

definition updateCorrelationBuffers ::
    "DoubleTalkDetector \<Rightarrow> jsnum list \<Rightarrow> jsnum list \<Rightarrow> DoubleTalkDetector" where
  "updateCorrelationBuffers d nearEnd farEnd =
     fold (\<lambda>i d.
             d\<lparr>nearEndBuffer := (nearEndBuffer d)[dtd_bufferIndex d := aget nearEnd i],
               farEndBuffer := (farEndBuffer d)[dtd_bufferIndex d := aget farEnd i],
               dtd_bufferIndex := (dtd_bufferIndex d + 1) mod windowSize (dtd_config d)\<rparr>)
       [0..<length nearEnd] d"

definition calculateCorrelation :: "DoubleTalkDetector \<Rightarrow> jsnum" where
  "calculateCorrelation d =
     (let n = windowSize (dtd_config d);
          (correlation, nearSum, farSum, nearSumSq, farSumSq) =
             fold (\<lambda>i (c, ns, fs, nsq, fsq).
                     let nearSample = aget (nearEndBuffer d) i;
                         farSample = aget (farEndBuffer d) i
                     in (c + nearSample * farSample, ns + nearSample, fs + farSample,
                         nsq + nearSample * nearSample, fsq + farSample * farSample))
               [0..<n] (0, 0, 0, 0, 0);
          nearMean = nearSum / num_of_nat n;
          farMean = farSum / num_of_nat n;
          nearVar = nearSumSq / num_of_nat n - nearMean * nearMean;
          farVar = farSumSq / num_of_nat n - farMean * farMean;
          denominator = Math_sqrt (nearVar * farVar)
      in if denominator > 0.0000000001
         then (correlation / num_of_nat n - nearMean * farMean) / denominator else 0)"

definition detectDoubleTalk :: "DoubleTalkDetector \<Rightarrow> bool" where
  "detectDoubleTalk d =
     (let powerRatio = nearEndPower d / (farEndPower d + 0.0000000001);
          powerTest = (powerRatio > powerRatioThreshold (dtd_config d));
          correlation = calculateCorrelation d;
          correlationTest = (\<bar>correlation\<bar> < correlationThreshold (dtd_config d))
      in powerTest \<or> correlationTest)"

definition updateState :: "DoubleTalkDetector \<Rightarrow> bool \<Rightarrow> DoubleTalkDetector" where
  "updateState d isDoubleTalk =
     (case dtd_state d of
        IDLE \<Rightarrow>
          if farEndPower d > 0.000001
          then d\<lparr>dtd_state := (if isDoubleTalk then DOUBLE_TALK else SINGLE_TALK)\<rparr>
          else d
      | SINGLE_TALK \<Rightarrow>
          if isDoubleTalk
          then d\<lparr>dtd_state := DOUBLE_TALK, hangoverCounter := hangoverTime (dtd_config d)\<rparr>
          else if farEndPower d < 0.0000001 then d\<lparr>dtd_state := IDLE\<rparr>
          else d
      | DOUBLE_TALK \<Rightarrow>
          if \<not> isDoubleTalk
          then d\<lparr>dtd_state := HOLD, hangoverCounter := hangoverTime (dtd_config d)\<rparr>
          else d
      | HOLD \<Rightarrow>
          (let d1 = d\<lparr>hangoverCounter := hangoverCounter d - 1\<rparr> in
           if hangoverCounter d1 \<le> 0
           then d1\<lparr>dtd_state := (if farEndPower d1 > 0.0000001 then SINGLE_TALK else IDLE)\<rparr>
           else if isDoubleTalk then d1\<lparr>dtd_state := DOUBLE_TALK\<rparr>
           else d1))"

text \<open>\<^verbatim>\<open>DoubleTalkDetector.process\<close>; the error signal passed in is not read.\<close>

definition dtd_process ::
    "DoubleTalkDetector \<Rightarrow> jsnum list \<Rightarrow> jsnum list \<Rightarrow> jsnum list \<Rightarrow> DoubleTalkDetector \<times> bool"
  where
  "dtd_process d nearEndSignal farEndSignal errorSignal =
     (let d1 = updatePowerEstimates d nearEndSignal farEndSignal;
          d2 = updateCorrelationBuffers d1 nearEndSignal farEndSignal;
          isDoubleTalk = detectDoubleTalk d2;
          d3 = updateState d2 isDoubleTalk
      in (d3, dtd_state d3 \<noteq> DOUBLE_TALK \<and> dtd_state d3 \<noteq> HOLD))"

section \<open>EchoCancellationSystem (main.ts)\<close>

record EchoCancellationSystem =
  nlmsProcessor :: NLMSProcessor
  doubleTalkDetector :: DoubleTalkDetector

definition processBlock ::
    "EchoCancellationSystem \<Rightarrow> jsnum list \<Rightarrow> jsnum list \<Rightarrow> EchoCancellationSystem \<times> jsnum list"
  where
  "processBlock s microphoneData systemAudioData =
     (let errorSignal = replicate (length microphoneData) 0;
          (d, enableAdaptation) =
             dtd_process (doubleTalkDetector s) microphoneData systemAudioData errorSignal;
          (p, processedAudio) =
             process (nlmsProcessor s) systemAudioData microphoneData enableAdaptation
      in (\<lparr>nlmsProcessor = p, doubleTalkDetector = d\<rparr>, processedAudio))"

section \<open>RealTimeProcessor (demo/real-time-processor.ts)\<close>

text \<open>
  \<^verbatim>\<open>estimateDelay\<close> reads and writes the field \<^verbatim>\<open>estimatedDelay\<close>: the model takes the
  field's value and returns its new value together with the result of the method.
\<close>

definition correlationAt :: "jsnum list \<Rightarrow> jsnum list \<Rightarrow> nat \<Rightarrow> jsnum \<times> nat" where
  "correlationAt mic sys delay =
     fold (\<lambda>i (correlation, count).
             (correlation + aget mic i * aget sys (i - delay), count + 1))
       [delay..<min (length mic) (length sys + delay)] (0, 0)"

text \<open>The loop over the candidate delays \<open>0, \<dots>, maxDelay - 1\<close>.\<close>

definition bestDelay_upto :: "jsnum list \<Rightarrow> jsnum list \<Rightarrow> nat \<Rightarrow> jsnum \<times> nat" where
  "bestDelay_upto mic sys maxDelay =
     fold (\<lambda>delay (maxCorrelation, bestDelay).
             let (correlation, count) = correlationAt mic sys delay in
             if count > 0
             then (let correlation = correlation / num_of_nat count in
                   if \<bar>correlation\<bar> > \<bar>maxCorrelation\<bar>
                   then (correlation, delay) else (maxCorrelation, bestDelay))
             else (maxCorrelation, bestDelay))
       [0..<maxDelay] (0, 0)"

definition estimateDelay :: "jsnum \<Rightarrow> jsnum list \<Rightarrow> jsnum list \<Rightarrow> jsnum \<times> jsnum" where
  "estimateDelay estimatedDelay mic sys =
     (let maxDelay = min 480 (length mic div 2);
          (maxCorrelation, bestDelay) = bestDelay_upto mic sys maxDelay;
          alpha = 0.1;
          estimatedDelay' = estimatedDelay * (1 - alpha) + num_of_nat bestDelay * alpha
      in (estimatedDelay', Math_round estimatedDelay'))"

definition applyResidualSuppression :: "jsnum list \<Rightarrow> jsnum list \<Rightarrow> jsnum list" where
  "applyResidualSuppression signal reference =
     (let suppressionFactor = 0.1 in
      fold (\<lambda>i output.
              let refLevel = \<bar>aget reference i\<bar>;
                  suppression = (if refLevel > 0.001 then suppressionFactor else 0)
              in output[i := aget signal i * (1 - suppression)])
        [0..<length signal] (replicate (length signal) 0))"

section \<open>EchoCancellationProcessor (the audio worklet)\<close>

record EchoCancellationProcessor =
  microphoneBuffer :: "jsnum list"
  systemAudioBuffer :: "jsnum list"
  bufferIndex :: nat
  wk_filterLength :: nat
  adaptiveFilter :: "jsnum list"
  wk_stepSize :: jsnum
  wk_regularization :: jsnum
  micPowerHistory :: "jsnum list"
  echoPowerHistory :: "jsnum list"
  powerIndex :: nat
  doubleTalkThreshold :: jsnum
  processedSamples :: nat
  erleSum :: jsnum
  erleCount :: nat

definition EchoCancellationProcessor_new :: EchoCancellationProcessor where
  "EchoCancellationProcessor_new =
     \<lparr>microphoneBuffer = replicate 8192 0, systemAudioBuffer = replicate 8192 0,
      bufferIndex = 0, wk_filterLength = 512, adaptiveFilter = replicate 512 0,
      wk_stepSize = 0.1, wk_regularization = 0.000001,
      micPowerHistory = replicate 64 0, echoPowerHistory = replicate 64 0, powerIndex = 0,
      doubleTalkThreshold = 0.5, processedSamples = 0, erleSum = 0, erleCount = 0\<rparr>"

definition referenceVector_of :: "EchoCancellationProcessor \<Rightarrow> jsnum list" where
  "referenceVector_of s =
     fold (\<lambda>i v.
             v[i := aget_int (systemAudioBuffer s)
                      (js_rem (int (bufferIndex s) - int i + int (length (systemAudioBuffer s)))
                         (int (length (systemAudioBuffer s))))])
       [0..<wk_filterLength s] (replicate (wk_filterLength s) 0)"

definition processSample ::
    "EchoCancellationProcessor \<Rightarrow> jsnum \<Rightarrow> jsnum \<Rightarrow> EchoCancellationProcessor \<times> jsnum" where
  "processSample s micSample systemSample =
     (let referenceVector = referenceVector_of s;
          estimatedEcho =
            fold (\<lambda>i acc. acc + aget (adaptiveFilter s) i * aget referenceVector i)
              [0..<wk_filterLength s] 0;
          errorSignal = micSample - estimatedEcho;
          micPower = micSample * micSample;
          echoPower = estimatedEcho * estimatedEcho;
          systemPower = systemSample * systemSample;
          micHist = (micPowerHistory s)[powerIndex s := micPower];
          echoHist = (echoPowerHistory s)[powerIndex s := echoPower];
          powerIndex' = (powerIndex s + 1) mod length (micPowerHistory s);
          (avgMicPower, avgEchoPower) =
            fold (\<lambda>i (am, ae). (am + aget micHist i, ae + aget echoHist i))
              [0..<length micHist] (0, 0);
          avgMicPower = avgMicPower / num_of_nat (length micHist);
          avgEchoPower = avgEchoPower / num_of_nat (length echoHist);
          isDoubleTalk =
            (avgMicPower > doubleTalkThreshold s * (avgEchoPower + systemPower + 0.0000000001));
          filter' =
            (if \<not> isDoubleTalk \<and> systemPower > 0.000001
             then (let refPower =
                         fold (\<lambda>i acc. acc + aget referenceVector i * aget referenceVector i)
                           [0..<wk_filterLength s] 0 + wk_regularization s;
                       normalizedStepSize = wk_stepSize s / refPower
                   in fold (\<lambda>i w.
                              w[i := (aget w i + normalizedStepSize * errorSignal *
                                        aget referenceVector i) * 0.9999])
                        [0..<wk_filterLength s] (adaptiveFilter s))
             else adaptiveFilter s);
          (erleSum', erleCount') =
            (if \<bar>micSample\<bar> > 0.000001 \<and> \<bar>estimatedEcho\<bar> > 0.000001
             then (let erle = 20 * Math_log10 (\<bar>micSample\<bar> / Math_max \<bar>errorSignal\<bar> 0.000001)
                   in (erleSum s + Math_max 0 (Math_min 60 erle), erleCount s + 1))
             else (erleSum s, erleCount s));
          processedSignal = errorSignal;
          noiseFloor = 0.001;
          processedSignal =
            (if \<bar>processedSignal\<bar> < noiseFloor \<and> systemPower > 0.000001
             then processedSignal * 0.1 else processedSignal);
          maxAmplitude = 0.95;
          processedSignal =
            (if \<bar>processedSignal\<bar> > maxAmplitude
             then sgn processedSignal * maxAmplitude else processedSignal)
      in (s\<lparr>adaptiveFilter := filter', micPowerHistory := micHist, echoPowerHistory := echoHist,
            powerIndex := powerIndex', erleSum := erleSum', erleCount := erleCount'\<rparr>,
          processedSignal))"

text \<open>
  The value of \<^verbatim>\<open>processedSignal\<close> in \<open>processSample\<close> after the noise gate, before the
  limiter is applied to it.
\<close>

definition post_gate_signal :: "EchoCancellationProcessor \<Rightarrow> jsnum \<Rightarrow> jsnum \<Rightarrow> jsnum" where
  "post_gate_signal s micSample systemSample =
     (let referenceVector = referenceVector_of s;
          estimatedEcho =
            fold (\<lambda>i acc. acc + aget (adaptiveFilter s) i * aget referenceVector i)
              [0..<wk_filterLength s] 0;
          errorSignal = micSample - estimatedEcho;
          systemPower = systemSample * systemSample;
          noiseFloor = 0.001
      in if \<bar>errorSignal\<bar> < noiseFloor \<and> systemPower > 0.000001
         then errorSignal * 0.1 else errorSignal)"

section \<open>The NLMS step in the words of the specification\<close>

text \<open>
  The reference vector of a sample step: \<open>x i\<close> is the entry of the delay line \<open>i\<close>
  positions behind the write index, after the current reference sample was stored there.
\<close>

definition reference_vector :: "NLMSProcessor \<Rightarrow> jsnum \<Rightarrow> nat \<Rightarrow> jsnum" where
  "reference_vector p referenceSample i =
     (delayLine p)[nlms_writeIndex p := referenceSample] !
       ((nlms_writeIndex p + filterLength (nlms_config p) - i) mod filterLength (nlms_config p))"

text \<open>
  Specification, section 4.3: \<open>p \<leftarrow> (1 - \<beta>) p + \<beta> x[0]\<^sup>2\<close> with \<open>\<beta> = 0.05\<close>; the normalised
  step is \<open>\<mu> / (p L + \<delta>)\<close>; \<open>e = mic - \<Sum>\<^sub>i w[i] x[i]\<close>;
  \<open>w[i] \<leftarrow> \<lambda> w[i] + \<mu>' e x[i]\<close> for all \<open>i < L\<close>; \<open>e\<close> is emitted. The result is the new
  weight vector, the new power estimate and the emitted sample.
\<close>

definition spec_nlms_step ::
    "nat \<Rightarrow> jsnum \<Rightarrow> jsnum \<Rightarrow> jsnum \<Rightarrow> jsnum list \<Rightarrow> jsnum \<Rightarrow> (nat \<Rightarrow> jsnum) \<Rightarrow> jsnum
     \<Rightarrow> jsnum list \<times> jsnum \<times> jsnum" where
  "spec_nlms_step L mu delta lam w p x mic =
     (let beta = 0.05;
          p' = (1 - beta) * p + beta * (x 0 * x 0);
          mu' = mu / (p' * num_of_nat L + delta);
          e = mic - (\<Sum>i<L. w ! i * x i);
          w' = map (\<lambda>i. lam * w ! i + mu' * e * x i) [0..<L]
      in (w', p', e))"

section \<open>The delay estimator in the words of the specification\<close>

text \<open>
  Specification, section 4.2, over the reals: \<open>r(k) = \<Sum>\<^sub>i mic[i] ref[i - k]\<close>, summed over
  the indices \<open>i\<close> at which both samples exist, and \<open>count(k)\<close>, the number of those indices.
\<close>

definition spec_r :: "real list \<Rightarrow> real list \<Rightarrow> nat \<Rightarrow> real" where
  "spec_r mic ref k = (\<Sum>i = k..<min (length mic) (length ref + k). mic ! i * ref ! (i - k))"

definition spec_count :: "real list \<Rightarrow> real list \<Rightarrow> nat \<Rightarrow> nat" where
  "spec_count mic ref k = min (length mic) (length ref + k) - k"

text \<open>
  \<open>k\<^sup>* = argmax\<^sub>k f(k)\<close> over the lags \<open>0, \<dots>, D - 1\<close>: the first lag at which \<open>f\<close> is
  largest (lag 0 when there is no lag at all).
\<close>

fun spec_argmax :: "(nat \<Rightarrow> real) \<Rightarrow> nat \<Rightarrow> nat" where
  "spec_argmax f 0 = 0"
| "spec_argmax f (Suc n) = (let b = spec_argmax f n in if f n > f b then n else b)"

text \<open>
  The update for one block over \<open>D\<close> lags: \<open>k\<^sup>* = argmax\<^sub>k |r(k)| / count(k)\<close>, the smoothed
  estimate \<open>(1 - \<alpha>) d + \<alpha> k\<^sup>*\<close> with \<open>\<alpha> = 0.1\<close>, and its rounding, the exposed value. The
  specification takes the lags \<open>0, \<dots>, 480\<close>, that is \<open>D = 481\<close>.
\<close>

definition spec_estimateDelay :: "nat \<Rightarrow> real \<Rightarrow> real list \<Rightarrow> real list \<Rightarrow> real \<times> int" where
  "spec_estimateDelay D d mic ref =
     (let k = spec_argmax (\<lambda>k. \<bar>spec_r mic ref k\<bar> / real (spec_count mic ref k)) D;
          alpha = 0.1;
          d' = (1 - alpha) * d + alpha * real k
      in (d', round d'))"

text \<open>A block of \<open>n\<close> samples that is 1 at position \<open>k\<close> and 0 elsewhere.\<close>

definition impulse :: "nat \<Rightarrow> nat \<Rightarrow> real list" where
  "impulse n k = (replicate n 0)[k := 1]"

section \<open>Example states\<close>

definition wk_small :: EchoCancellationProcessor where
  "wk_small =
     EchoCancellationProcessor_new
       \<lparr>systemAudioBuffer := [Fin 2, 0], wk_filterLength := 1, adaptiveFilter := [Fin 1],
        micPowerHistory := [0], echoPowerHistory := [0]\<rparr>"

text \<open>A detector with the default configuration that has detected double talk.\<close>

definition dtd_in_double_talk :: DoubleTalkDetector where
  "dtd_in_double_talk = (DoubleTalkDetector_new DoubleTalkConfig_default)\<lparr>dtd_state := DOUBLE_TALK\<rparr>"

text \<open>Freshly constructed filters with one and with two taps.\<close>

definition nlms_one :: NLMSProcessor where
  "nlms_one = initializeFilter (NLMSConfig_default\<lparr>filterLength := 1\<rparr>)"

definition nlms_two :: NLMSProcessor where
  "nlms_two = initializeFilter (NLMSConfig_default\<lparr>filterLength := 2\<rparr>)"

text \<open>The one-tap filter after one adapting block with the sample 1 on both inputs.\<close>

definition nlms_one_adapted :: NLMSProcessor where
  "nlms_one_adapted = fst (process nlms_one [Fin 1] [Fin 1] True)"

text \<open>A freshly constructed system with one filter tap, and one with two.\<close>

definition system_one :: EchoCancellationSystem where
  "system_one =
     \<lparr>nlmsProcessor = nlms_one,
      doubleTalkDetector = DoubleTalkDetector_new DoubleTalkConfig_default\<rparr>"

definition system_two :: EchoCancellationSystem where
  "system_two =
     \<lparr>nlmsProcessor = nlms_two,
      doubleTalkDetector = DoubleTalkDetector_new DoubleTalkConfig_default\<rparr>"

text \<open>
  The two-tap system after two blocks of one sample each, with the sample 0.001 on the
  microphone and on the reference.
\<close>

definition system_two_after :: EchoCancellationSystem where
  "system_two_after =
     fst (processBlock (fst (processBlock system_two [Fin 0.001] [Fin 0.001]))
            [Fin 0.001] [Fin 0.001])"

text \<open>
  A one-tap system whose filter has the weight 2 and an all-zero delay line; the same with
  the leakage factor 1; and the same with a detector that has detected double talk.
\<close>

definition system_heavy :: EchoCancellationSystem where
  "system_heavy =
     \<lparr>nlmsProcessor = nlms_one\<lparr>weights := [Fin 2]\<rparr>,
      doubleTalkDetector = DoubleTalkDetector_new DoubleTalkConfig_default\<rparr>"

definition system_heavy_unit :: EchoCancellationSystem where
  "system_heavy_unit =
     \<lparr>nlmsProcessor =
        nlms_one\<lparr>nlms_config := (NLMSConfig_default\<lparr>filterLength := 1, leakageFactor := 1\<rparr>),
                 weights := [Fin 2]\<rparr>,
      doubleTalkDetector = DoubleTalkDetector_new DoubleTalkConfig_default\<rparr>"

definition system_heavy_double_talk :: EchoCancellationSystem where
  "system_heavy_double_talk =
     \<lparr>nlmsProcessor = nlms_one\<lparr>weights := [Fin 2]\<rparr>, doubleTalkDetector = dtd_in_double_talk\<rparr>"

section \<open>Conditions on the filter for a silent block\<close>

text \<open>
  The taps are finite: the lengths are as constructed (\<open>wf_nlms\<close>), and every weight and
  every entry of the delay line is a finite number.
\<close>

definition taps_finite :: "NLMSProcessor \<Rightarrow> bool" where
  "taps_finite p \<longleftrightarrow>
     wf_nlms p \<and> list_all is_fin (weights p) \<and> list_all is_fin (delayLine p)"

text \<open>
  The quantities read by \<open>updateWeights\<close> are finite: the step size, the leakage factor,
  the regularization and the power estimate are finite numbers, the regularization and the
  power estimate are not negative, and one of the two is positive.
\<close>

definition step_finite :: "NLMSProcessor \<Rightarrow> bool" where
  "step_finite p \<longleftrightarrow>
     is_fin (stepSize (nlms_config p)) \<and> is_fin (leakageFactor (nlms_config p)) \<and>
     is_fin (regularization (nlms_config p)) \<and> is_fin (powerEstimate p) \<and>
     0 \<le> regularization (nlms_config p) \<and> 0 \<le> powerEstimate p \<and>
     (0 < regularization (nlms_config p) \<or> 0 < powerEstimate p)"

text \<open>All weights are zero; all entries of the delay line are zero.\<close>

definition zero_weights :: "NLMSProcessor \<Rightarrow> bool" where
  "zero_weights p \<longleftrightarrow> list_all (\<lambda>w. w = 0) (weights p)"

definition silent_history :: "NLMSProcessor \<Rightarrow> bool" where
  "silent_history p \<longleftrightarrow> list_all (\<lambda>x. x = 0) (delayLine p)"

text \<open>
  The flag \<^verbatim>\<open>enableAdaptation\<close> that \<open>processBlock\<close> gets from the detector for a block of
  \<open>n\<close> zeros on both inputs.
\<close>

definition silent_block_adapts :: "EchoCancellationSystem \<Rightarrow> nat \<Rightarrow> bool" where
  "silent_block_adapts s n =
     snd (dtd_process (doubleTalkDetector s) (replicate n 0) (replicate n 0) (replicate n 0))"

section \<open>The loop of \<open>process\<close>, round by round\<close>

text \<open>The first \<open>k\<close> rounds of the loop of \<open>process\<close>, from a given filter and output array.\<close>

definition process_upto ::
    "jsnum list \<Rightarrow> jsnum list \<Rightarrow> bool \<Rightarrow> nat \<Rightarrow> NLMSProcessor \<times> jsnum list
     \<Rightarrow> NLMSProcessor \<times> jsnum list" where
  "process_upto referenceSignal microphoneSignal enableAdaptation k st =
     fold (\<lambda>i (p, output).
             let (p', errorSignal) =
                   process_sample p (aget referenceSignal i) (aget microphoneSignal i)
                     enableAdaptation
             in (p', output[i := errorSignal]))
       [0..<k] st"

section \<open>Facts about JavaScript numbers\<close>

lemma numeral_jsnum: "(numeral k :: jsnum) = Fin (numeral k)"
  by (induction k) (simp_all only: numeral.simps one_jsnum_def plus_jsnum.simps)

lemma power_jsnum: "Fin a ^ n = Fin (a ^ n)"
  by (induction n) (simp_all add: one_jsnum_def)

lemmas jsnum_simps =
  zero_jsnum_def one_jsnum_def numeral_jsnum power_jsnum minus_jsnum_def num_of_nat_def

section \<open>CircularBuffer: the delay line\<close>

lemma npt_loop_pow2: "\<exists>m. nextPowerOfTwo_loop (2 ^ k) n = 2 ^ m"
proof (induction "2 ^ k :: nat" n arbitrary: k rule: nextPowerOfTwo_loop.induct)
  case (1 n)
  show ?case
  proof (cases "(2::nat) ^ k < n")
    case True
    from 1(1)[of "Suc k"] True obtain m where "nextPowerOfTwo_loop (2 ^ Suc k) n = 2 ^ m"
      by auto
    with True show ?thesis by (subst nextPowerOfTwo_loop.simps) (auto simp: mult.commute)
  next
    case False
    then show ?thesis by (subst nextPowerOfTwo_loop.simps) auto
  qed
qed

lemma npt_pow2: "\<exists>m. nextPowerOfTwo n = 2 ^ m"
  using npt_loop_pow2[of 0 n] by (simp add: nextPowerOfTwo_def)

lemma npt_loop_ge: "0 < pow \<Longrightarrow> n \<le> nextPowerOfTwo_loop pow n"
  by (induction pow n rule: nextPowerOfTwo_loop.induct) (subst nextPowerOfTwo_loop.simps, auto)

text \<open>The capacity is the requested size rounded up to a power of two.\<close>

lemma npt_ge: "n \<le> nextPowerOfTwo n"
  by (simp add: nextPowerOfTwo_def npt_loop_ge)

lemma npt_loop_idem: "k \<le> m \<Longrightarrow> nextPowerOfTwo_loop (2 ^ k) (2 ^ m) = 2 ^ m"
proof (induction "m - k" arbitrary: k)
  case 0
  then show ?case by (subst nextPowerOfTwo_loop.simps) simp
next
  case (Suc d)
  then have "k < m" by simp
  then have lt: "(2::nat) ^ k < 2 ^ m" by simp
  have "nextPowerOfTwo_loop (2 ^ Suc k) (2 ^ m) = 2 ^ m"
    using Suc.hyps(1)[of "Suc k"] Suc.hyps(2) Suc.prems by auto
  with lt show ?case by (subst nextPowerOfTwo_loop.simps) (simp add: mult.commute)
qed

lemma npt_idem: "nextPowerOfTwo (nextPowerOfTwo n) = nextPowerOfTwo n"
proof -
  obtain m where m: "nextPowerOfTwo n = 2 ^ m" using npt_pow2 by blast
  show ?thesis using npt_loop_idem[of 0 m] by (simp add: m) (simp add: nextPowerOfTwo_def)
qed

lemma and_mask_mod: "x AND (2 ^ m - 1) = x mod (2 ^ m :: int)"
  by (metis mask_eq_exp_minus_1 take_bit_eq_mask take_bit_eq_mod)

lemma wf_cb_mask: 
  assumes "wf_cb b" shows "x AND cb_mask b = x mod int (cb_size b)"
proof -
  obtain m where m: "nextPowerOfTwo (cb_size b) = 2 ^ m" using npt_pow2 by blast
  with assms have "cb_size b = 2 ^ m" "cb_mask b = 2 ^ m - 1" by (simp_all add: wf_cb_def)
  then show ?thesis by (simp add: and_mask_mod)
qed

lemma wf_cb_new: "wf_cb (CircularBuffer_new n)"
proof -
  have "0 < nextPowerOfTwo n" using npt_pow2[of n] by auto
  then show ?thesis
  by (simp add: wf_cb_def CircularBuffer_new_def Let_def npt_idem)
qed

lemma wf_cb_write: assumes "wf_cb b" shows "wf_cb (write_cb b x)"
proof -
  have "0 < int (cb_size b)" using assms by (simp add: wf_cb_def)
  then show ?thesis using assms wf_cb_mask[OF assms]
    by (simp add: wf_cb_def write_cb_def)
qed

lemma wf_cb_writeBlock: "wf_cb b \<Longrightarrow> wf_cb (writeBlock b xs)"
  by (induction xs arbitrary: b) (simp_all add: wf_cb_write)

lemma writeBlock_append: "writeBlock b (xs @ ys) = writeBlock (writeBlock b xs) ys"
  by (induction xs arbitrary: b) simp_all

lemma writeBlock_size: "cb_size (writeBlock b xs) = cb_size b"
  by (induction xs arbitrary: b) (simp_all add: write_cb_def)

lemma read_write_0: assumes "wf_cb b" shows "read (write_cb b x) 0 = x"
proof -
  let ?w = "cb_writeIndex b" and ?s = "int (cb_size b)"
  from assms have w: "0 \<le> ?w" "?w < ?s" and len: "length (cb_buffer b) = cb_size b"
    by (simp_all add: wf_cb_def)
  have "((?w + 1) mod ?s - 1) mod ?s = (?w + 1 - 1) mod ?s"
    by (rule mod_diff_left_eq)
  also have "\<dots> = ?w" using w by simp
  finally have idx: "((?w + 1) mod ?s - 1) mod ?s = ?w" .
  have nw: "nat ?w < cb_size b" using w by linarith
  have m: "\<And>x. x AND cb_mask b = x mod ?s" using wf_cb_mask[OF assms] by simp
  show ?thesis using w len nw
    by (simp add: read_def write_cb_def m idx aget_def)
qed

lemma read_write_Suc:
  assumes "wf_cb b" and "0 < j" and "j < int (cb_size b)"
  shows "read (write_cb b x) j = read b (j - 1)"
proof -
  let ?w = "cb_writeIndex b" and ?s = "int (cb_size b)"
  from assms have w: "0 \<le> ?w" "?w < ?s" and len: "length (cb_buffer b) = cb_size b"
    by (simp_all add: wf_cb_def)
  have m: "\<And>x. x AND cb_mask b = x mod ?s" using wf_cb_mask[OF assms(1)] by simp
  have "((?w + 1) mod ?s - (1 + j)) mod ?s = (?w + 1 - (1 + j)) mod ?s"
    by (rule mod_diff_left_eq)
  then have idx: "((?w + 1) mod ?s - 1 - j) mod ?s = (?w - j) mod ?s"
    by (simp add: algebra_simps)
  have ne: "(?w - j) mod ?s \<noteq> ?w"
  proof
    assume e: "(?w - j) mod ?s = ?w"
    show False
    proof (cases "j \<le> ?w")
      case True
      then have "(?w - j) mod ?s = ?w - j" using w assms(2) by (intro mod_pos_pos_trivial) auto
      with e assms(2) show False by simp
    next
      case False
      have "(?w - j) mod ?s = (?w - j + ?s) mod ?s" by simp
      also have "\<dots> = ?w - j + ?s" using False w assms(3) by (intro mod_pos_pos_trivial) auto
      finally show False using e assms(3) by simp
    qed
  qed
  have nn: "0 \<le> (?w - j) mod ?s" using w by simp
  have "nat ((?w - j) mod ?s) \<noteq> nat ?w" using ne nn w by linarith
  then show ?thesis using w len
    by (simp add: read_def write_cb_def m idx aget_def)
qed

lemma read_writeBlock:
  "wf_cb b \<Longrightarrow> j < length hist \<Longrightarrow> j < cb_size b \<Longrightarrow>
   read (writeBlock b hist) (int j) = rev hist ! j"
proof (induction hist arbitrary: j rule: rev_induct)
  case Nil
  then show ?case by simp
next
  case (snoc x xs)
  have wf: "wf_cb (writeBlock b xs)" using snoc.prems(1) by (rule wf_cb_writeBlock)
  show ?case
  proof (cases j)
    case 0
    then show ?thesis using read_write_0[OF wf] by (simp add: writeBlock_append)
  next
    case (Suc i)
    have "read (write_cb (writeBlock b xs) x) (int j) = read (writeBlock b xs) (int j - 1)"
      using snoc.prems Suc by (intro read_write_Suc[OF wf]) (simp_all add: writeBlock_size)
    also have "\<dots> = rev xs ! i" using snoc.IH[of i] snoc.prems Suc by simp
    finally show ?thesis using Suc by (simp add: writeBlock_append)
  qed
qed

lemma fold_fill:
  "n \<le> length out \<Longrightarrow>
   fold (\<lambda>i out. out[i := f i]) [0..<n] out = map f [0..<n] @ drop n out"
proof (induction n)
  case 0
  then show ?case by simp
next
  case (Suc n)
  then have "n < length out" by simp
  then have "(map f [0..<n] @ drop n out)[n := f n] = map f [0..<n] @ f n # drop (Suc n) out"
    by (simp add: list_update_append Cons_nth_drop_Suc[symmetric] )
  with Suc show ?case by simp
qed

lemma readBlock_map:
  "readBlock b out delay = map (\<lambda>i. read b (delay + int i)) [0..<length out]"
  by (simp add: readBlock_def fold_fill)

lemma readBlock_history:
  assumes "wf_cb b" and "k + length out \<le> cb_size b" and "k + length out \<le> length hist"
  shows "readBlock (writeBlock b hist) out (int k) = take (length out) (drop k (rev hist))"
proof (rule nth_equalityI)
  show "length (readBlock (writeBlock b hist) out (int k)) =
        length (take (length out) (drop k (rev hist)))"
    using assms(3) by (simp add: readBlock_map)
next
  fix i
  assume "i < length (readBlock (writeBlock b hist) out (int k))"
  then have i: "i < length out" by (simp add: readBlock_map)
  have "read (writeBlock b hist) (int (k + i)) = rev hist ! (k + i)"
    using assms i by (intro read_writeBlock) simp_all
  then show "readBlock (writeBlock b hist) out (int k) ! i =
        take (length out) (drop k (rev hist)) ! i"
    using i assms(3) by (simp add: readBlock_map)
qed

text \<open>
  Claim C7, as amended. Let \<open>hist\<close> be the samples written, in order, into a well-formed
  buffer. A block read of \<open>N\<close> samples at offset \<open>k\<close> returns the samples written
  \<open>k, \<dots>, k + N - 1\<close> samples ago whenever \<open>k + N\<close> exceeds neither the capacity nor the
  number of samples written; in particular, a block of at most capacity samples is read
  back at offset 0 in time-reversed order, and \<open>read\<close> at offset 0 returns the sample
  written last.
\<close>

theorem delay_line_round_trip:
  assumes "wf_cb b"
  shows "(length block \<le> cb_size b \<and> length out = length block \<longrightarrow>
            readBlock (writeBlock b block) out 0 = rev block) \<and>
         (k + length out \<le> cb_size b \<and> k + length out \<le> length hist \<longrightarrow>
            readBlock (writeBlock b hist) out (int k) = take (length out) (drop k (rev hist))) \<and>
         (block \<noteq> [] \<longrightarrow> read (writeBlock b block) 0 = last block)"
proof (intro conjI impI)
  assume "length block \<le> cb_size b \<and> length out = length block"
  then show "readBlock (writeBlock b block) out 0 = rev block"
    using readBlock_history[OF assms, of 0 out block] by simp
next
  assume "k + length out \<le> cb_size b \<and> k + length out \<le> length hist"
  then show "readBlock (writeBlock b hist) out (int k) = take (length out) (drop k (rev hist))"
    using readBlock_history[OF assms] by simp
next
  assume ne: "block \<noteq> []"
  have "0 < cb_size b" using assms by (simp add: wf_cb_def)
  then have "read (writeBlock b block) (int 0) = rev block ! 0"
    using ne by (intro read_writeBlock[OF assms]) simp_all
  then show "read (writeBlock b block) 0 = last block"
    using ne by (simp add: last_conv_nth rev_nth)
qed

theorem delay_line_round_trip_witness:
  "wf_cb (CircularBuffer_new 4) \<and>
   readBlock (writeBlock (CircularBuffer_new 4) [Fin 1, Fin 2, Fin 3]) [0, 0, 0] 0
     = [Fin 3, Fin 2, Fin 1] \<and>
   readBlock (writeBlock (CircularBuffer_new 4) [Fin 5, Fin 1, Fin 2, Fin 3]) [0, 0, 0] 1
     = [Fin 2, Fin 1, Fin 5] \<and>
   read (writeBlock (CircularBuffer_new 4) [Fin 1, Fin 2, Fin 3]) 0 = Fin 3"
proof -
  have wf: "wf_cb (CircularBuffer_new 4)" by (rule wf_cb_new)
  have sz: "cb_size (CircularBuffer_new 4) = 4" by code_simp
  show ?thesis
    using wf sz
      delay_line_round_trip[OF wf, where block = "[Fin 1, Fin 2, Fin 3]" and out = "[0, 0, 0]"
        and k = 1 and hist = "[Fin 5, Fin 1, Fin 2, Fin 3]"]
    by simp
qed

text \<open>
  Claim C7 as stated bounds only the block length by the capacity. With capacity 4, after
  the blocks \<open>5, 6, 7, 8\<close> and \<open>1, 2, 3, 4\<close>, the samples written 1 to 4 samples ago are
  \<open>3, 2, 1, 8\<close>, but a block read of 4 samples at offset 1 wraps around the ring and
  returns \<open>3, 2, 1, 4\<close>.
\<close>

theorem delay_line_offset_counterexample:
  "wf_cb (CircularBuffer_new 4) \<and>
   length [Fin 1, Fin 2, Fin 3, Fin 4] \<le> cb_size (CircularBuffer_new 4) \<and>
   readBlock
     (writeBlock (writeBlock (CircularBuffer_new 4) [Fin 5, Fin 6, Fin 7, Fin 8])
        [Fin 1, Fin 2, Fin 3, Fin 4])
     [0, 0, 0, 0] 1
   \<noteq> take 4 (drop 1 (rev ([Fin 5, Fin 6, Fin 7, Fin 8] @ [Fin 1, Fin 2, Fin 3, Fin 4])))"
  by code_simp

section \<open>The residual suppressor\<close>

lemma times_one_jsnum: "x * Fin 1 = x"
  by (cases x) simp_all

lemma applyResidualSuppression_map:
  "applyResidualSuppression signal reference =
     map (\<lambda>i. aget signal i * (1 - (if \<bar>aget reference i\<bar> > 0.001 then 0.1 else 0)))
       [0..<length signal]"
  by (simp add: applyResidualSuppression_def Let_def fold_fill)

text \<open>
  Claim C9. The output of the residual suppressor has the length of the signal; sample \<open>i\<close>
  is the signal's sample times \<open>1 - 0.1\<close> where the magnitude of the reference sample
  exceeds \<open>0.001\<close>, and the signal's sample itself everywhere else (also where the
  reference is NaN or missing).
\<close>

theorem residual_suppression:
  "length (applyResidualSuppression signal reference) = length signal \<and>
   (\<forall>i<length signal.
      applyResidualSuppression signal reference ! i =
        (if \<bar>aget reference i\<bar> > 0.001 then signal ! i * (1 - 0.1) else signal ! i))"
  by (simp add: applyResidualSuppression_map aget_def jsnum_simps times_one_jsnum)

theorem residual_suppression_witness:
  "length (applyResidualSuppression [Fin 1, Fin 2] [Fin 0.5, Fin 0]) = 2 \<and>
   applyResidualSuppression [Fin 1, Fin 2] [Fin 0.5, Fin 0] ! 0 = Fin 0.9 \<and>
   applyResidualSuppression [Fin 1, Fin 2] [Fin 0.5, Fin 0] ! 1 = Fin 2"
  using residual_suppression[of "[Fin 1, Fin 2]" "[Fin 0.5, Fin 0]"]
  by (simp add: aget_def jsnum_simps)

section \<open>The soft limiter of the worklet\<close>

lemma abs_sgn_bound: "\<bar>sgn (x::real) * 0.95\<bar> \<le> 0.95"
  by (simp add: abs_mult abs_sgn_eq)

lemma soft_limit_nogt:
  fixes p :: jsnum
  shows "\<not> \<bar>(if \<bar>p\<bar> > 0.95 then sgn p * 0.95 else p)\<bar> > 0.95"
proof (cases p)
  case (Fin x)
  have "\<not> \<bar>sgn x * (95 / 100)\<bar> > (95 / 100 :: real)" using abs_sgn_bound[of x] by simp
  then show ?thesis using Fin by (simp add: jsnum_simps)
qed (simp_all add: jsnum_simps)

lemma soft_limit_range:
  fixes p :: jsnum
  defines "out \<equiv> (if \<bar>p\<bar> > 0.95 then sgn p * 0.95 else p)"
  shows "out = NaN \<or> (Fin (- 0.95) \<le> out \<and> out \<le> Fin 0.95)"
proof (cases p)
  case (Fin x)
  show ?thesis
  proof (cases "\<bar>x\<bar> > 0.95")
    case True
    have "\<bar>sgn x * 0.95\<bar> \<le> (0.95 :: real)" by (rule abs_sgn_bound)
    then have "- 0.95 \<le> sgn x * (0.95 :: real) \<and> sgn x * 0.95 \<le> (0.95 :: real)"
      by linarith
    then show ?thesis using Fin True unfolding out_def by (simp add: jsnum_simps)
  next
    case False
    then have "- 0.95 \<le> x \<and> x \<le> 0.95" by linarith
    then show ?thesis using Fin False unfolding out_def by (simp add: jsnum_simps)
  qed
qed (simp_all add: out_def jsnum_simps)

lemma processSample_snd:
  "snd (processSample s micSample systemSample) =
     (if \<bar>post_gate_signal s micSample systemSample\<bar> > 0.95
      then sgn (post_gate_signal s micSample systemSample) * 0.95
      else post_gate_signal s micSample systemSample)"
  by (simp add: processSample_def post_gate_signal_def Let_def split_def)

lemma is_fin_ops:
  "is_fin a \<Longrightarrow> is_fin b \<Longrightarrow> is_fin (a + b)"
  "is_fin a \<Longrightarrow> is_fin b \<Longrightarrow> is_fin (a - b)"
  "is_fin a \<Longrightarrow> is_fin b \<Longrightarrow> is_fin (a * b)"
  "is_fin a \<Longrightarrow> is_fin (sgn a)"
  "is_fin a \<Longrightarrow> is_fin \<bar>a\<bar>"
  "is_fin (numeral k)" "is_fin 0" "is_fin 1" "is_fin (num_of_nat n)"
  by (cases a; cases b; simp add: jsnum_simps)+

lemma is_fin_fold_sum:
  "(\<And>i. i < n \<Longrightarrow> is_fin (f i)) \<Longrightarrow> is_fin a \<Longrightarrow>
   is_fin (fold (\<lambda>i acc. acc + f i) [0..<n] a)"
  by (induction n) (simp_all add: is_fin_ops)

lemma is_fin_aget: "list_all is_fin xs \<Longrightarrow> i < length xs \<Longrightarrow> is_fin (aget xs i)"
  by (simp add: aget_def list_all_length)

lemma js_rem_range:
  assumes "0 \<le> a" and "0 < n"
  shows "0 \<le> js_rem a (int n) \<and> js_rem a (int n) < int n"
proof (cases "a = 0")
  case True
  then show ?thesis using assms(2) by (simp add: js_rem_def)
next
  case False
  then have "js_rem a (int n) = a mod int n" using assms(1) by (simp add: js_rem_def)
  then show ?thesis using assms(2) by simp
qed

lemma referenceVector_of_map:
  "referenceVector_of s =
     map (\<lambda>i. aget_int (systemAudioBuffer s)
                 (js_rem (int (bufferIndex s) - int i + int (length (systemAudioBuffer s)))
                    (int (length (systemAudioBuffer s)))))
       [0..<wk_filterLength s]"
  by (simp add: referenceVector_of_def fold_fill)

lemma referenceVector_of_fin:
  assumes "list_all is_fin (systemAudioBuffer s)"
    and "wk_filterLength s \<le> length (systemAudioBuffer s)" and "i < wk_filterLength s"
  shows "is_fin (aget (referenceVector_of s) i)"
proof -
  let ?n = "length (systemAudioBuffer s)"
  let ?j = "js_rem (int (bufferIndex s) - int i + int ?n) (int ?n)"
  have iln: "i < ?n" by (rule less_le_trans[OF assms(3) assms(2)])
  have n: "0 < ?n" using iln by (cases "systemAudioBuffer s") simp_all
  have a: "0 \<le> int (bufferIndex s) - int i + int ?n" using iln by simp
  have j: "0 \<le> ?j \<and> ?j < int ?n" using a n by (rule js_rem_range)
  then have "nat ?j < ?n" by linarith
  then have "is_fin (systemAudioBuffer s ! nat ?j)"
    using assms(1) by (simp add: list_all_length)
  then show ?thesis
    using assms(3) j by (simp add: referenceVector_of_map aget_def aget_int_def)
qed

lemma post_gate_signal_fin:
  assumes "is_fin micSample" and "list_all is_fin (adaptiveFilter s)"
    and "list_all is_fin (systemAudioBuffer s)"
    and "wk_filterLength s \<le> length (adaptiveFilter s)"
    and "wk_filterLength s \<le> length (systemAudioBuffer s)"
  shows "is_fin (post_gate_signal s micSample systemSample)"
proof -
  have "is_fin (fold (\<lambda>i acc. acc + aget (adaptiveFilter s) i * aget (referenceVector_of s) i)
                [0..<wk_filterLength s] 0)"
    using assms by (intro is_fin_fold_sum is_fin_ops is_fin_aget referenceVector_of_fin) simp_all
  then have e: "is_fin (micSample -
      fold (\<lambda>i acc. acc + aget (adaptiveFilter s) i * aget (referenceVector_of s) i)
        [0..<wk_filterLength s] 0)"
    using assms(1) by (rule is_fin_ops(2)[rotated])
  have n: "is_fin (0.1 :: jsnum)" by (simp add: jsnum_simps)
  show ?thesis
    unfolding post_gate_signal_def Let_def using e n by (simp add: is_fin_ops)
qed

lemma post_gate_signal_nan: "post_gate_signal s NaN systemSample = NaN"
  by (simp add: post_gate_signal_def Let_def minus_jsnum_def)

lemma soft_limit_not_nan:
  fixes g :: jsnum
  assumes "g \<noteq> NaN"
  shows "Fin (- 0.95) \<le> (if \<bar>g\<bar> > 0.95 then sgn g * 0.95 else g) \<and>
         (if \<bar>g\<bar> > 0.95 then sgn g * 0.95 else g) \<le> Fin 0.95"
proof -
  have "(if \<bar>g\<bar> > 0.95 then sgn g * 0.95 else g) \<noteq> NaN"
    using assms by (cases g) (simp_all add: jsnum_simps)
  then show ?thesis using soft_limit_range[of g] by simp
qed

text \<open>
  Claim C10, as amended. The sample returned by \<open>processSample\<close> is the signal after the
  noise gate, replaced by its sign times \<open>0.95\<close> where its magnitude exceeds \<open>0.95\<close>. It lies
  in \<open>[-0.95, 0.95]\<close> whenever the signal after the noise gate is not NaN, and it is NaN
  when that signal is NaN, which it is for a NaN microphone sample. The signal after the
  noise gate is finite, hence the returned sample in the range, for a finite microphone
  sample, finite filter taps and a finite reference history, when the filter length
  exceeds neither the number of taps nor the length of the reference history.
\<close>

theorem worklet_output_soft_limited:
  "snd (processSample s micSample systemSample) =
     (if \<bar>post_gate_signal s micSample systemSample\<bar> > 0.95
      then sgn (post_gate_signal s micSample systemSample) * 0.95
      else post_gate_signal s micSample systemSample) \<and>
   (post_gate_signal s micSample systemSample \<noteq> NaN \<longrightarrow>
      Fin (- 0.95) \<le> snd (processSample s micSample systemSample) \<and>
      snd (processSample s micSample systemSample) \<le> Fin 0.95) \<and>
   (post_gate_signal s micSample systemSample = NaN \<longrightarrow>
      snd (processSample s micSample systemSample) = NaN) \<and>
   post_gate_signal s NaN systemSample = NaN \<and>
   (is_fin micSample \<and> list_all is_fin (adaptiveFilter s) \<and>
    list_all is_fin (systemAudioBuffer s) \<and>
    wk_filterLength s \<le> length (adaptiveFilter s) \<and>
    wk_filterLength s \<le> length (systemAudioBuffer s) \<longrightarrow>
      is_fin (post_gate_signal s micSample systemSample) \<and>
      Fin (- 0.95) \<le> snd (processSample s micSample systemSample) \<and>
      snd (processSample s micSample systemSample) \<le> Fin 0.95)"
proof (intro conjI impI)
  let ?g = "post_gate_signal s micSample systemSample"
  show out: "snd (processSample s micSample systemSample) =
      (if \<bar>?g\<bar> > 0.95 then sgn ?g * 0.95 else ?g)"
    by (rule processSample_snd)
  show "post_gate_signal s NaN systemSample = NaN"
    by (rule post_gate_signal_nan)
  {
    assume "?g \<noteq> NaN"
    then show "Fin (- 0.95) \<le> snd (processSample s micSample systemSample)"
      and "snd (processSample s micSample systemSample) \<le> Fin 0.95"
      unfolding out using soft_limit_not_nan[of ?g] by simp_all
  }
  {
    assume "?g = NaN"
    then show "snd (processSample s micSample systemSample) = NaN"
      unfolding out by simp
  }
  assume "is_fin micSample \<and> list_all is_fin (adaptiveFilter s) \<and>
    list_all is_fin (systemAudioBuffer s) \<and>
    wk_filterLength s \<le> length (adaptiveFilter s) \<and>
    wk_filterLength s \<le> length (systemAudioBuffer s)"
  then show fin: "is_fin ?g" by (intro post_gate_signal_fin) simp_all
  then have "?g \<noteq> NaN" by (cases ?g) simp_all
  then show "Fin (- 0.95) \<le> snd (processSample s micSample systemSample)"
    and "snd (processSample s micSample systemSample) \<le> Fin 0.95"
    unfolding out using soft_limit_not_nan[of ?g] by simp_all
qed

theorem worklet_output_soft_limited_witness:
  "post_gate_signal wk_small (Fin 5) (Fin 2) \<noteq> NaN \<and>
   snd (processSample wk_small (Fin 5) (Fin 2)) = Fin 0.95 \<and>
   post_gate_signal wk_small NaN (Fin 2) = NaN \<and>
   snd (processSample wk_small NaN (Fin 2)) = NaN \<and>
   is_fin (Fin 5) \<and> list_all is_fin (adaptiveFilter wk_small) \<and>
   list_all is_fin (systemAudioBuffer wk_small) \<and>
   wk_filterLength wk_small \<le> length (adaptiveFilter wk_small) \<and>
   wk_filterLength wk_small \<le> length (systemAudioBuffer wk_small) \<and>
   is_fin (post_gate_signal wk_small (Fin 5) (Fin 2)) \<and>
   Fin (- 0.95) \<le> snd (processSample wk_small (Fin 5) (Fin 2))"
proof -
  have g: "post_gate_signal wk_small (Fin 5) (Fin 2) = Fin 3"
    by (simp add: wk_small_def EchoCancellationProcessor_new_def post_gate_signal_def
        referenceVector_of_map jsnum_simps aget_def aget_int_def js_rem_def Let_def)
  have h: "list_all is_fin (adaptiveFilter wk_small) \<and>
      list_all is_fin (systemAudioBuffer wk_small) \<and>
      wk_filterLength wk_small \<le> length (adaptiveFilter wk_small) \<and>
      wk_filterLength wk_small \<le> length (systemAudioBuffer wk_small)"
    by (simp add: wk_small_def EchoCancellationProcessor_new_def jsnum_simps)
  have o1: "snd (processSample wk_small (Fin 5) (Fin 2)) = Fin 0.95"
    using worklet_output_soft_limited[of wk_small "Fin 5" "Fin 2"]
    by (simp add: g jsnum_simps)
  have o2: "post_gate_signal wk_small NaN (Fin 2) = NaN \<and>
      snd (processSample wk_small NaN (Fin 2)) = NaN"
    using worklet_output_soft_limited[of wk_small NaN "Fin 2"] by simp
  show ?thesis using g h o1 o2 by simp
qed

text \<open>
  Claim C10 as stated fails: the freshly constructed worklet processor, given a NaN
  microphone sample, returns NaN, which is not in \<open>[-0.95, 0.95]\<close>.
\<close>

theorem worklet_nan_counterexample:
  "snd (processSample EchoCancellationProcessor_new NaN (Fin 0)) = NaN \<and>
   \<not> (Fin (- 0.95) \<le> snd (processSample EchoCancellationProcessor_new NaN (Fin 0)) \<and>
      snd (processSample EchoCancellationProcessor_new NaN (Fin 0)) \<le> Fin 0.95)"
proof -
  have "snd (processSample EchoCancellationProcessor_new NaN (Fin 0)) = NaN"
    by (simp add: processSample_snd post_gate_signal_nan)
  then show ?thesis by simp
qed

section \<open>The hangover of the double-talk detector\<close>

lemma updateState_hold_step:
  assumes "dtd_state d = HOLD" and "1 < hangoverCounter d"
  shows "updateState d False = d\<lparr>hangoverCounter := hangoverCounter d - 1\<rparr>"
  using assms by (simp add: updateState_def Let_def)

lemma hold_countdown:
  assumes "dtd_state d = HOLD" and "int n < hangoverCounter d"
  shows "((\<lambda>d. updateState d False) ^^ n) d = d\<lparr>hangoverCounter := hangoverCounter d - int n\<rparr>"
  using assms
proof (induction n)
  case 0
  then show ?case by simp
next
  case (Suc n)
  then have "((\<lambda>d. updateState d False) ^^ n) d = d\<lparr>hangoverCounter := hangoverCounter d - int n\<rparr>"
    by simp
  moreover have "updateState (d\<lparr>hangoverCounter := hangoverCounter d - int n\<rparr>) False
      = d\<lparr>hangoverCounter := hangoverCounter d - int n - 1\<rparr>"
    using Suc.prems by (subst updateState_hold_step) simp_all
  ultimately show ?case by (simp add: algebra_simps)
qed

lemma enter_hold:
  "updateState dtd_in_double_talk False =
     dtd_in_double_talk\<lparr>dtd_state := HOLD, hangoverCounter := 2400\<rparr>"
  by (simp add: updateState_def dtd_in_double_talk_def DoubleTalkDetector_new_def
      DoubleTalkConfig_default_def)

lemma hold_run:
  assumes "n < 2400"
  shows "((\<lambda>d. updateState d False) ^^ Suc n) dtd_in_double_talk =
         dtd_in_double_talk\<lparr>dtd_state := HOLD, hangoverCounter := 2400 - int n\<rparr>"
proof -
  have "((\<lambda>d. updateState d False) ^^ Suc n) dtd_in_double_talk =
        ((\<lambda>d. updateState d False) ^^ n) (updateState dtd_in_double_talk False)"
    by (simp only: funpow_Suc_right o_apply)
  also have "\<dots> = dtd_in_double_talk\<lparr>dtd_state := HOLD, hangoverCounter := 2400 - int n\<rparr>"
    unfolding enter_hold using assms by (subst hold_countdown) simp_all
  finally show ?thesis .
qed

lemma updateCorrelationBuffers_frame:
  "dtd_state (updateCorrelationBuffers d nearEnd farEnd) = dtd_state d \<and>
   hangoverCounter (updateCorrelationBuffers d nearEnd farEnd) = hangoverCounter d"
proof -
  have "\<And>d. dtd_state (fold (\<lambda>i d.
             d\<lparr>nearEndBuffer := (nearEndBuffer d)[dtd_bufferIndex d := aget nearEnd i],
               farEndBuffer := (farEndBuffer d)[dtd_bufferIndex d := aget farEnd i],
               dtd_bufferIndex := (dtd_bufferIndex d + 1) mod windowSize (dtd_config d)\<rparr>) xs d)
          = dtd_state d \<and>
        hangoverCounter (fold (\<lambda>i d.
             d\<lparr>nearEndBuffer := (nearEndBuffer d)[dtd_bufferIndex d := aget nearEnd i],
               farEndBuffer := (farEndBuffer d)[dtd_bufferIndex d := aget farEnd i],
               dtd_bufferIndex := (dtd_bufferIndex d + 1) mod windowSize (dtd_config d)\<rparr>) xs d)
          = hangoverCounter d" for xs
    by (induction xs) simp_all
  then show ?thesis by (simp add: updateCorrelationBuffers_def)
qed

lemma updatePowerEstimates_frame:
  "dtd_state (updatePowerEstimates d nearEnd farEnd) = dtd_state d \<and>
   hangoverCounter (updatePowerEstimates d nearEnd farEnd) = hangoverCounter d"
  by (simp add: updatePowerEstimates_def Let_def split_def)

lemma hold_decrement_per_block:
  assumes "dtd_state d = HOLD"
  shows "hangoverCounter (fst (dtd_process d nearEndSignal farEndSignal errorSignal)) =
         hangoverCounter d - 1"
  using assms
  by (simp add: dtd_process_def Let_def updateState_def updateCorrelationBuffers_frame
      updatePowerEstimates_frame)

text \<open>
  Claim C3, evaluated on the code. A detector with the default hangover of 2400 that is in
  DOUBLE_TALK and then sees blocks without double talk enters HOLD at the first block with
  the counter at 2400; every later block, whatever its length, lowers the counter by one.
  After 21 blocks (2688 samples at 128 samples per block) the state is still HOLD with the
  counter at 2380; the state is HOLD after block 2400 and has left HOLD after block 2401. A
  block of 128 samples processed in HOLD lowers the counter from 2400 to 2399.
\<close>

theorem hangover_counts_blocks:
  "dtd_state (((\<lambda>d. updateState d False) ^^ 1) dtd_in_double_talk) = HOLD \<and>
   hangoverCounter (((\<lambda>d. updateState d False) ^^ 1) dtd_in_double_talk) = 2400 \<and>
   dtd_state (((\<lambda>d. updateState d False) ^^ 21) dtd_in_double_talk) = HOLD \<and>
   hangoverCounter (((\<lambda>d. updateState d False) ^^ 21) dtd_in_double_talk) = 2380 \<and>
   dtd_state (((\<lambda>d. updateState d False) ^^ 2400) dtd_in_double_talk) = HOLD \<and>
   dtd_state (((\<lambda>d. updateState d False) ^^ 2401) dtd_in_double_talk) \<noteq> HOLD \<and>
   hangoverCounter
     (fst (dtd_process (dtd_in_double_talk\<lparr>dtd_state := HOLD, hangoverCounter := 2400\<rparr>)
             (replicate 128 0) (replicate 128 0) (replicate 128 0))) = 2399"
proof -
  have blk: "hangoverCounter
     (fst (dtd_process (dtd_in_double_talk\<lparr>dtd_state := HOLD, hangoverCounter := 2400\<rparr>)
             (replicate 128 0) (replicate 128 0) (replicate 128 0))) = 2399"
    by (subst hold_decrement_per_block) simp_all
  have r1: "((\<lambda>d. updateState d False) ^^ 1) dtd_in_double_talk =
            dtd_in_double_talk\<lparr>dtd_state := HOLD, hangoverCounter := 2400\<rparr>"
    using hold_run[of 0] by simp
  have r21: "((\<lambda>d. updateState d False) ^^ 21) dtd_in_double_talk =
            dtd_in_double_talk\<lparr>dtd_state := HOLD, hangoverCounter := 2380\<rparr>"
    using hold_run[of 20] by simp
  have r2400: "((\<lambda>d. updateState d False) ^^ 2400) dtd_in_double_talk =
            dtd_in_double_talk\<lparr>dtd_state := HOLD, hangoverCounter := 1\<rparr>"
    using hold_run[of 2399] by simp
  have "((\<lambda>d. updateState d False) ^^ 2401) dtd_in_double_talk =
        updateState (((\<lambda>d. updateState d False) ^^ 2400) dtd_in_double_talk) False"
    using funpow.simps(2)[of 2400 "\<lambda>d. updateState d False"] by simp
  then have r2401: "dtd_state (((\<lambda>d. updateState d False) ^^ 2401) dtd_in_double_talk) \<noteq> HOLD"
    unfolding r2400 by (simp add: updateState_def Let_def)
  show ?thesis using r1 r21 r2400 r2401 blk by simp
qed

section \<open>The NLMS filter\<close>

lemma times_assoc_jsnum: "(a::jsnum) * b * c = a * (b * c)"
  by (cases a; cases b; cases c)
     (auto simp: zero_less_mult_iff mult_less_0_iff not_less order.order_iff_strict)

lemma js_rem_nonneg: "0 \<le> a \<Longrightarrow> 0 < b \<Longrightarrow> js_rem a b = a mod b"
  by (cases "a = 0") (simp_all add: js_rem_def)

lemma delayIndex_eq:
  assumes "i \<le> wi + len" and "0 < len"
  shows "delayIndex wi i len = (wi + len - i) mod len"
proof -
  have "int wi - int i + int len = int (wi + len - i)" using assms by simp
  then show ?thesis using assms
    by (simp add: delayIndex_def js_rem_nonneg nat_mod_distrib del: of_nat_diff of_nat_add)
qed

lemma fold_sum:
  fixes a :: "'a::comm_monoid_add"
  shows "fold (\<lambda>i acc. acc + f i) [0..<n] a = a + (\<Sum>i<n. f i)"
  by (induction n) (simp_all add: add.assoc)

lemma fold_update_each:
  "n \<le> length ws \<Longrightarrow>
   fold (\<lambda>i w. w[i := g i (aget w i)]) [0..<n] ws = map (\<lambda>i. g i (ws ! i)) [0..<n] @ drop n ws"
proof (induction n)
  case 0
  then show ?case by simp
next
  case (Suc n)
  then have n: "n < length ws" by simp
  let ?xs = "map (\<lambda>i. g i (ws ! i)) [0..<n] @ drop n ws"
  have "aget ?xs n = ws ! n" using n by (simp add: aget_def nth_append)
  moreover have "?xs[n := v] = map (\<lambda>i. g i (ws ! i)) [0..<n] @ v # drop (Suc n) ws" for v
    using n by (simp add: list_update_append Cons_nth_drop_Suc[symmetric])
  ultimately show ?case using Suc by simp
qed


lemma calculateFilterOutput_sum:
  assumes "wf_nlms p"
  shows "calculateFilterOutput p =
     (\<Sum>i<filterLength (nlms_config p). weights p ! i *
        delayLine p ! ((nlms_writeIndex p + filterLength (nlms_config p) - i) mod filterLength (nlms_config p)))"
proof -
  let ?L = "filterLength (nlms_config p)"
  have "(\<Sum>i<?L. aget (weights p) i * aget (delayLine p) (delayIndex (nlms_writeIndex p) i ?L))
      = (\<Sum>i<?L. weights p ! i * delayLine p ! ((nlms_writeIndex p + ?L - i) mod ?L))"
    using assms by (intro sum.cong refl) (simp add: wf_nlms_def aget_def delayIndex_eq)
  then show ?thesis
    by (simp add: calculateFilterOutput_def Let_def fold_sum zero_jsnum_def[symmetric])
qed

lemma updateWeights_eq:
  assumes "wf_nlms p"
  shows "updateWeights p e =
     (let L = filterLength (nlms_config p);
          x = (\<lambda>i. delayLine p ! ((nlms_writeIndex p + L - i) mod L));
          pe = 0.95 * powerEstimate p + 0.05 * x 0 * x 0;
          nss = stepSize (nlms_config p) / (pe * num_of_nat L + regularization (nlms_config p))
      in p\<lparr>weights := map (\<lambda>i. leakageFactor (nlms_config p) * weights p ! i + nss * e * x i) [0..<L],
            powerEstimate := pe\<rparr>)"
proof -
  let ?L = "filterLength (nlms_config p)"
  let ?wi = "nlms_writeIndex p"
  have wf: "0 < ?L" "length (weights p) = ?L" "length (delayLine p) = ?L" "?wi < ?L"
    using assms by (simp_all add: wf_nlms_def)
  have cur: "aget (delayLine p) ?wi = delayLine p ! ((?wi + ?L - 0) mod ?L)"
    using wf by (simp add: aget_def)
  have upd: "fold (\<lambda>i w. w[i := lam * aget w i + c * aget (delayLine p) (delayIndex ?wi i ?L)])
               [0..<?L] (weights p)
        = map (\<lambda>i. lam * weights p ! i + c * delayLine p ! ((?wi + ?L - i) mod ?L)) [0..<?L]"
    for lam c
  proof -
    have "fold (\<lambda>i w. w[i := (\<lambda>i v. lam * v + c * aget (delayLine p) (delayIndex ?wi i ?L)) i (aget w i)])
               [0..<?L] (weights p)
        = map (\<lambda>i. lam * weights p ! i + c * aget (delayLine p) (delayIndex ?wi i ?L)) [0..<?L]
          @ drop ?L (weights p)"
      using wf by (subst fold_update_each) simp_all
    also have "\<dots> = map (\<lambda>i. lam * weights p ! i + c * delayLine p ! ((?wi + ?L - i) mod ?L)) [0..<?L]"
      using wf by (simp add: aget_def delayIndex_eq)
    finally show ?thesis by simp
  qed
  show ?thesis
    unfolding updateWeights_def Let_def upd cur by simp
qed


lemma wf_nlms_write: "wf_nlms p \<Longrightarrow> wf_nlms (p\<lparr>delayLine := (delayLine p)[nlms_writeIndex p := x]\<rparr>)"
  by (simp add: wf_nlms_def)

lemma jsnum_consts: "(1::jsnum) - 0.05 = 0.95"
  by (simp add: jsnum_simps)

lemma process_sample_adapting:
  assumes "wf_nlms p"
  shows "process_sample p x mic True =
     (case spec_nlms_step (filterLength (nlms_config p)) (stepSize (nlms_config p))
             (regularization (nlms_config p)) (leakageFactor (nlms_config p))
             (weights p) (powerEstimate p) (reference_vector p x) mic of
        (w', p', e) \<Rightarrow>
          (p\<lparr>weights := w', delayLine := (delayLine p)[nlms_writeIndex p := x],
             powerEstimate := p',
             nlms_writeIndex := (nlms_writeIndex p + 1) mod filterLength (nlms_config p)\<rparr>, e))"
proof -
  let ?p1 = "p\<lparr>delayLine := (delayLine p)[nlms_writeIndex p := x]\<rparr>"
  have wf1: "wf_nlms ?p1" using assms by (rule wf_nlms_write)
  show ?thesis
    unfolding process_sample_def Let_def
    by (simp add: updateWeights_eq[OF wf1] calculateFilterOutput_sum[OF wf1] spec_nlms_step_def
        reference_vector_def Let_def jsnum_consts times_assoc_jsnum)
qed

text \<open>
  The reference vector starts with the current reference sample and continues with the
  entries of the delay line behind the write index.
\<close>

lemma reference_vector_current: "wf_nlms p \<Longrightarrow> reference_vector p x 0 = x"
  by (simp add: reference_vector_def wf_nlms_def)

lemma reference_vector_earlier:
  assumes "wf_nlms p" and "0 < i" and "i < filterLength (nlms_config p)"
  shows "reference_vector p x i =
         delayLine p ! ((nlms_writeIndex p + filterLength (nlms_config p) - i)
                          mod filterLength (nlms_config p))"
proof -
  let ?L = "filterLength (nlms_config p)" and ?w = "nlms_writeIndex p"
  have w: "?w < ?L" using assms(1) by (simp add: wf_nlms_def)
  have "(?w + ?L - i) mod ?L \<noteq> ?w"
  proof (cases "i \<le> ?w")
    case True
    then have "(?w + ?L - i) mod ?L = ?w - i" using w assms(2) by (simp add: mod_if)
    then show ?thesis using assms(2) True by simp
  next
    case False
    then have "(?w + ?L - i) mod ?L = ?w + ?L - i" using w assms(3) by simp
    then show ?thesis using assms(3) by simp
  qed
  then show ?thesis by (simp add: reference_vector_def)
qed

text \<open>
  Claim C2. On a well-formed filter, a sample step with adaptation enabled is the step of
  the specification: the error is the microphone sample minus \<open>\<Sum>\<^sub>i w[i] x[i]\<close>, the power
  estimate becomes \<open>(1 - 0.05) p + 0.05 x[0]\<^sup>2\<close>, the normalised step is
  \<open>\<mu> / (p L + \<delta>)\<close> with the new \<open>p\<close>, every weight becomes
  \<open>\<lambda> w[i] + \<mu>' e x[i]\<close>, and the error is the sample put out.
\<close>

theorem nlms_adapting_step:
  assumes "wf_nlms p"
  shows "process_sample p x mic True =
     (case spec_nlms_step (filterLength (nlms_config p)) (stepSize (nlms_config p))
             (regularization (nlms_config p)) (leakageFactor (nlms_config p))
             (weights p) (powerEstimate p) (reference_vector p x) mic of
        (w', p', e) \<Rightarrow>
          (p\<lparr>weights := w', delayLine := (delayLine p)[nlms_writeIndex p := x],
             powerEstimate := p',
             nlms_writeIndex := (nlms_writeIndex p + 1) mod filterLength (nlms_config p)\<rparr>, e))"
  using assms by (rule process_sample_adapting)

lemma nlms_two_wf: "wf_nlms nlms_two"
  by (simp add: wf_nlms_def nlms_two_def initializeFilter_def NLMSConfig_default_def)

theorem nlms_adapting_step_witness:
  "wf_nlms nlms_two \<and>
   snd (process_sample nlms_two (Fin 1) (Fin 1) True) = Fin 1 \<and>
   weights (fst (process_sample nlms_two (Fin 1) (Fin 1) True)) = [Fin (0.1 / 0.1000029), Fin 0] \<and>
   powerEstimate (fst (process_sample nlms_two (Fin 1) (Fin 1) True)) = Fin 0.05000095"
  using nlms_adapting_step[OF nlms_two_wf, of "Fin 1" "Fin 1"] nlms_two_wf
  by (simp add: spec_nlms_step_def reference_vector_def Let_def nlms_two_def initializeFilter_def
      NLMSConfig_default_def jsnum_simps lessThan_Suc numeral_2_eq_2)


subsection \<open>The loop of \<open>process\<close>\<close>

lemma process_upto_0 [simp]: "process_upto r m ad 0 st = st"
  by (simp add: process_upto_def)

lemma process_upto_Suc' [simp]:
  "process_upto r m ad (Suc k) st =
     (fst (process_sample (fst (process_upto r m ad k st)) (aget r k) (aget m k) ad),
      (snd (process_upto r m ad k st))
        [k := snd (process_sample (fst (process_upto r m ad k st)) (aget r k) (aget m k) ad)])"
  by (simp add: process_upto_def split_def Let_def)

lemma process_eq_upto:
  "process p r m ad = process_upto r m ad (length r) (p, replicate (length r) 0)"
  by (simp add: process_def process_upto_def)

lemma process_upto_length [simp]:
  "length (snd (process_upto r m ad k st)) = length (snd st)"
  by (induction k) simp_all

lemma process_upto_nth:
  "i < k \<Longrightarrow> i < length (snd st) \<Longrightarrow>
   snd (process_upto r m ad k st) ! i =
     snd (process_sample (fst (process_upto r m ad i st)) (aget r i) (aget m i) ad)"
proof (induction k)
  case 0
  then show ?case by simp
next
  case (Suc k)
  show ?case
  proof (cases "i = k")
    case True
    then show ?thesis using Suc.prems by simp
  next
    case False
    then have "i < k" using Suc.prems by simp
    then show ?thesis using Suc False by simp
  qed
qed

lemma process_nth:
  assumes "i < length r"
  shows "snd (process p r m ad) ! i =
     snd (process_sample (fst (process_upto r m ad i (p, replicate (length r) 0)))
            (aget r i) (aget m i) ad)"
  using assms by (simp add: process_eq_upto process_upto_nth)

lemma process_length [simp]: "length (snd (process p r m ad)) = length r"
  by (simp add: process_eq_upto)

lemma process_sample_frozen:
  "weights (fst (process_sample p x m False)) = weights p"
  by (simp add: process_sample_def Let_def)

lemma process_upto_frozen:
  "weights (fst (process_upto r m False k st)) = weights (fst st)"
  by (induction k) (simp_all add: process_sample_frozen)

lemma process_frozen: "weights (fst (process p r m False)) = weights p"
  by (simp add: process_eq_upto process_upto_frozen)

text \<open>The lengths are as the constructor sets them, and \<open>process\<close> keeps them.\<close>

lemma wf_nlms_initializeFilter: "0 < filterLength cfg \<Longrightarrow> wf_nlms (initializeFilter cfg)"
  by (simp add: wf_nlms_def initializeFilter_def)

lemma wf_nlms_process_sample:
  assumes "wf_nlms p"
  shows "wf_nlms (fst (process_sample p x m ad))"
proof -
  have wf1: "wf_nlms (p\<lparr>delayLine := (delayLine p)[nlms_writeIndex p := x]\<rparr>)"
    using assms by (rule wf_nlms_write)
  show ?thesis
    using assms
    by (simp add: process_sample_def Let_def updateWeights_eq[OF wf1]) (simp add: wf_nlms_def)
qed

lemma wf_nlms_process_upto:
  "wf_nlms (fst st) \<Longrightarrow> wf_nlms (fst (process_upto r m ad k st))"
  by (induction k) (simp_all add: wf_nlms_process_sample)

lemma wf_nlms_process: "wf_nlms p \<Longrightarrow> wf_nlms (fst (process p r m ad))"
  by (simp add: process_eq_upto wf_nlms_process_upto)

text \<open>
  Claim C4, as amended. Over any number of blocks of any sizes processed with adaptation
  disabled, the weight vector does not change at all, and so its norm stays what it was:
  the leakage factor is applied inside the weight update only.
\<close>

theorem no_leakage_without_adaptation:
  "weights (process_blocks p blocks False) = weights p \<and>
   filterNorm (process_blocks p blocks False) = filterNorm p"
proof
  show w: "weights (process_blocks p blocks False) = weights p"
    by (induction p blocks False rule: process_blocks.induct) (simp_all add: process_frozen)
  show "filterNorm (process_blocks p blocks False) = filterNorm p"
    by (simp add: filterNorm_def w)
qed

lemma not_fin_minus: "\<not> is_fin a \<Longrightarrow> \<not> is_fin (a - b)"
  by (cases a; cases b; simp add: minus_jsnum_def)

lemma process_sample_error:
  "snd (process_sample p x m ad) =
     m - calculateFilterOutput (p\<lparr>delayLine := (delayLine p)[nlms_writeIndex p := x]\<rparr>)"
  by (simp add: process_sample_def Let_def)

lemma process_not_fin:
  assumes "i < length r" and "\<not> is_fin (aget m i)"
  shows "\<not> is_fin (snd (process p r m ad) ! i)"
  using assms by (simp add: process_nth process_sample_error not_fin_minus)

lemma process_nan:
  assumes "i < length r" and "aget m i = NaN"
  shows "snd (process p r m ad) ! i = NaN"
  using assms by (simp add: process_nth process_sample_error minus_jsnum_def)

lemmas nlms_eval = process_def process_sample_def calculateFilterOutput_def updateWeights_def
  delayIndex_def js_rem_def aget_def Let_def jsnum_simps initializeFilter_def
  NLMSConfig_default_def nlms_one_def nlms_two_def numeral_2_eq_2

subsection \<open>The system and its detector\<close>

lemma processBlock_unfold:
  "processBlock s mic sys =
     (\<lparr>nlmsProcessor =
         fst (process (nlmsProcessor s) sys mic
                (snd (dtd_process (doubleTalkDetector s) mic sys (replicate (length mic) 0)))),
       doubleTalkDetector =
         fst (dtd_process (doubleTalkDetector s) mic sys (replicate (length mic) 0))\<rparr>,
      snd (process (nlmsProcessor s) sys mic
             (snd (dtd_process (doubleTalkDetector s) mic sys (replicate (length mic) 0)))))"
  by (simp add: processBlock_def Let_def split_def)

lemma updateCorrelationBuffers_far:
  "farEndPower (updateCorrelationBuffers d nearEnd farEnd) = farEndPower d"
proof -
  have "\<And>d. farEndPower (fold (\<lambda>i d.
             d\<lparr>nearEndBuffer := (nearEndBuffer d)[dtd_bufferIndex d := aget nearEnd i],
               farEndBuffer := (farEndBuffer d)[dtd_bufferIndex d := aget farEnd i],
               dtd_bufferIndex := (dtd_bufferIndex d + 1) mod windowSize (dtd_config d)\<rparr>) xs d)
          = farEndPower d" for xs
    by (induction xs) simp_all
  then show ?thesis by (simp add: updateCorrelationBuffers_def)
qed

lemma dtd_idle_quiet:
  assumes "dtd_state d = IDLE"
    and "\<not> farEndPower (updatePowerEstimates d n f) > 0.000001"
  shows "snd (dtd_process d n f e)"
    and "dtd_state (fst (dtd_process d n f e)) = IDLE"
    and "farEndPower (fst (dtd_process d n f e)) = farEndPower (updatePowerEstimates d n f)"
  using assms
  by (simp_all add: dtd_process_def Let_def updateState_def updateCorrelationBuffers_frame
      updateCorrelationBuffers_far updatePowerEstimates_frame)

lemma far_one:
  "farEndPower (updatePowerEstimates d [m] [Fin x]) =
     Fin 0.95 * farEndPower d + Fin (0.05 * (x * x))"
  by (simp add: updatePowerEstimates_def Let_def split_def aget_def jsnum_simps)


subsection \<open>Silence in, silence out\<close>

lemma zero_times_fin: "is_fin a \<Longrightarrow> 0 * a = (0::jsnum)" "is_fin a \<Longrightarrow> a * 0 = (0::jsnum)"
  by (cases a; simp add: zero_jsnum_def)+

lemma leak_power_0:
  assumes "list_all is_fin ws"
  shows "map (\<lambda>w. (l::jsnum) ^ 0 * w) ws = ws"
proof (rule map_idI)
  fix w assume "w \<in> set ws"
  then have "is_fin w" using assms by (simp add: list_all_iff)
  then show "l ^ 0 * w = w" by (cases w) (simp_all add: one_jsnum_def)
qed

lemma leak_power_Suc:
  assumes "list_all is_fin ws" and "is_fin l"
  shows "map (\<lambda>w. l * w) (map (\<lambda>w. l ^ k * w) ws) = map (\<lambda>w. l ^ Suc k * w) ws"
proof -
  obtain a where a: "l = Fin a" using assms(2) by (cases l) simp_all
  have "l * (l ^ k * w) = l ^ Suc k * w" if "w \<in> set ws" for w
  proof -
    have "is_fin w" using assms(1) that by (simp add: list_all_iff)
    then obtain b where "w = Fin b" by (cases w) simp_all
    then show ?thesis by (simp add: a power_jsnum del: power_Suc) (simp add: power_jsnum)
  qed
  then show ?thesis by simp
qed

lemma leak_power_zero:
  assumes "list_all (\<lambda>w. w = 0) ws" and "is_fin l"
  shows "map (\<lambda>w. l ^ n * w) ws = ws"
proof (rule map_idI)
  obtain a where a: "l = Fin a" using assms(2) by (cases l) simp_all
  fix w assume "w \<in> set ws"
  then have "w = 0" using assms(1) by (simp add: list_all_iff)
  then show "l ^ n * w = w" by (simp add: a power_jsnum zero_jsnum_def)
qed

lemma leak_power_one:
  assumes "list_all is_fin ws"
  shows "map (\<lambda>w. (1::jsnum) ^ n * w) ws = ws"
proof (rule map_idI)
  fix w assume "w \<in> set ws"
  then have "is_fin w" using assms by (simp add: list_all_iff)
  then show "1 ^ n * w = w" by (cases w) (simp_all add: one_jsnum_def power_jsnum)
qed

lemma silent_step:
  assumes tf: "taps_finite p"
    and zs: "zero_weights p \<or> silent_history p"
    and sf0: "ad \<longrightarrow> step_finite p"
  shows "snd (process_sample p 0 0 ad) = 0"
    and "taps_finite (fst (process_sample p 0 0 ad))"
    and "zero_weights p \<Longrightarrow> zero_weights (fst (process_sample p 0 0 ad))"
    and "silent_history p \<Longrightarrow> silent_history (fst (process_sample p 0 0 ad))"
    and "ad \<Longrightarrow> step_finite (fst (process_sample p 0 0 ad))"
    and "nlms_config (fst (process_sample p 0 0 ad)) = nlms_config p"
    and "weights (fst (process_sample p 0 0 ad)) =
           (if ad then map (\<lambda>w. leakageFactor (nlms_config p) * w) (weights p) else weights p)"
proof -
  let ?L = "filterLength (nlms_config p)"
  let ?wi = "nlms_writeIndex p"
  let ?p1 = "p\<lparr>delayLine := (delayLine p)[?wi := 0]\<rparr>"
  let ?x = "\<lambda>i. delayLine ?p1 ! ((?wi + ?L - i) mod ?L)"
  have sf: "step_finite p" if ad using sf0 that by simp
  from tf have wf: "wf_nlms p" and wfin: "list_all is_fin (weights p)"
    and dl: "list_all is_fin (delayLine p)"
    by (simp_all add: taps_finite_def)
  from wf have len: "0 < ?L" "length (weights p) = ?L" "length (delayLine p) = ?L" "?wi < ?L"
    by (simp_all add: wf_nlms_def)
  have wf1: "wf_nlms ?p1" using wf by (rule wf_nlms_write)
  have dl1: "list_all is_fin (delayLine ?p1)"
    using dl len by (auto simp: list_all_length nth_list_update zero_jsnum_def)
  have x_fin: "is_fin (?x i)" for i
    using dl1 len by (simp add: list_all_length)
  have w_fin: "is_fin (weights p ! i)" if "i < ?L" for i
    using wfin len that by (simp add: list_all_length)
  have sh1: "list_all (\<lambda>x. x = 0) (delayLine ?p1)" if "silent_history p"
    using that len by (auto simp: silent_history_def list_all_length nth_list_update)
  have prod0: "weights p ! i * ?x i = 0" if i: "i < ?L" for i
    using zs
  proof
    assume "zero_weights p"
    then have "weights p ! i = 0" using len i by (simp add: zero_weights_def list_all_length)
    then show ?thesis using x_fin[of i] by (simp add: zero_times_fin)
  next
    assume "silent_history p"
    then have "?x i = 0" using sh1 len by (simp add: list_all_length)
    then show ?thesis using w_fin[OF i] by (simp add: zero_times_fin)
  qed
  have est: "calculateFilterOutput ?p1 = 0"
    unfolding calculateFilterOutput_sum[OF wf1]
    by (rule sum.neutral) (use prod0 in simp)
  show err: "snd (process_sample p 0 0 ad) = 0"
    by (simp add: process_sample_error est) (simp add: jsnum_simps)
  have upd: "\<exists>r. 0 \<le> r \<and> powerEstimate p = Fin r \<and>
      updateWeights ?p1 0 =
        ?p1\<lparr>weights := map (\<lambda>w. leakageFactor (nlms_config p) * w) (weights p),
            powerEstimate := Fin (0.95 * r)\<rparr>" if ad
  proof -
    from sf[OF that] have cfg: "is_fin (stepSize (nlms_config p))"
        "is_fin (leakageFactor (nlms_config p))" "is_fin (regularization (nlms_config p))"
      and pe: "is_fin (powerEstimate p)"
      and nn: "0 \<le> regularization (nlms_config p)" "0 \<le> powerEstimate p"
      and ps: "0 < regularization (nlms_config p) \<or> 0 < powerEstimate p"
      by (simp_all add: step_finite_def)
    obtain r where r: "powerEstimate p = Fin r" "0 \<le> r"
      using pe nn(2) by (cases "powerEstimate p") (simp_all add: zero_jsnum_def)
    obtain d where d: "regularization (nlms_config p) = Fin d" "0 \<le> d"
      using cfg(3) nn(1) by (cases "regularization (nlms_config p)") (simp_all add: zero_jsnum_def)
    obtain m where m: "stepSize (nlms_config p) = Fin m"
      using cfg(1) by (cases "stepSize (nlms_config p)") simp_all
    obtain l where l: "leakageFactor (nlms_config p) = Fin l"
      using cfg(2) by (cases "leakageFactor (nlms_config p)") simp_all
    have rd: "0 < d \<or> 0 < r" using ps by (simp add: r d zero_jsnum_def)
    have x0: "?x 0 = Fin 0"
      using len by (simp add: zero_jsnum_def)
    have L: "0 < real ?L" using len(1) by simp
    have den: "0 < 0.95 * r * real ?L + d"
      using rd
    proof
      assume "0 < d"
      moreover have "0 \<le> 0.95 * r * real ?L" using r(2) by simp
      ultimately show ?thesis by (rule add_nonneg_pos[rotated])
    next
      assume "0 < r"
      then have "0 < 0.95 * r * real ?L" using L by simp
      then show ?thesis using d(2) by (rule add_pos_nonneg)
    qed
    have "\<exists>c. Fin m / (Fin (0.95 * r) * Fin (real ?L) + Fin d) = Fin c"
      using den by simp
    then obtain c where c: "Fin m / (Fin (0.95 * r) * Fin (real ?L) + Fin d) = Fin c" by blast
    have each: "Fin l * weights p ! i + Fin c * 0 * ?x i = Fin l * weights p ! i"
      if iL: "i < ?L" for i
    proof -
      obtain y where y: "?x i = Fin y"
        using x_fin[of i] by (cases "?x i") simp_all
      obtain v where v: "weights p ! i = Fin v"
        using w_fin[OF iL] by (cases "weights p ! i") simp_all
      show ?thesis unfolding y v by (simp add: zero_jsnum_def)
    qed
    have "map (\<lambda>i. Fin l * weights p ! i + Fin c * 0 * ?x i) [0..<?L]
        = map (\<lambda>i. Fin l * weights p ! i) [0..<?L]"
      by (rule map_cong) (use each in simp_all)
    also have "\<dots> = map (\<lambda>w. Fin l * w) (weights p)"
      using len by (intro nth_equalityI) simp_all
    finally have ws: "map (\<lambda>i. Fin l * weights p ! i + Fin c * 0 * ?x i) [0..<?L]
        = map (\<lambda>w. Fin l * w) (weights p)" .
    have "updateWeights ?p1 0 =
        ?p1\<lparr>weights := map (\<lambda>w. Fin l * w) (weights p), powerEstimate := Fin (0.95 * r)\<rparr>"
      unfolding updateWeights_eq[OF wf1] Let_def
      using x0 c ws by (simp add: r d m l jsnum_simps)
    then show ?thesis using r l by auto
  qed
  have p2: "fst (process_sample p 0 0 ad) =
      (if ad then updateWeights ?p1 0 else ?p1)\<lparr>nlms_writeIndex := (?wi + 1) mod ?L\<rparr>"
  proof -
    have z: "(0::jsnum) - 0 = 0" by (simp add: jsnum_simps)
    have cfg1: "nlms_config (if ad then updateWeights ?p1 0 else ?p1) = nlms_config p"
      and wi1: "nlms_writeIndex (if ad then updateWeights ?p1 0 else ?p1) = ?wi"
      by (simp_all add: updateWeights_eq[OF wf1] Let_def)
    show ?thesis
      by (simp add: process_sample_def Let_def est z cfg1 wi1 del: One_nat_def)
        (simp add: updateWeights_eq[OF wf1] Let_def)
  qed
  show cfg': "nlms_config (fst (process_sample p 0 0 ad)) = nlms_config p"
    unfolding p2 by (simp add: updateWeights_eq[OF wf1] Let_def)
  show wts: "weights (fst (process_sample p 0 0 ad)) =
      (if ad then map (\<lambda>w. leakageFactor (nlms_config p) * w) (weights p) else weights p)"
  proof (cases ad)
    case True
    then obtain r where "updateWeights ?p1 0 =
        ?p1\<lparr>weights := map (\<lambda>w. leakageFactor (nlms_config p) * w) (weights p),
            powerEstimate := Fin (0.95 * r)\<rparr>" using upd by blast
    then show ?thesis unfolding p2 using True by simp
  next
    case False
    then show ?thesis unfolding p2 by simp
  qed
  have dl': "delayLine (fst (process_sample p 0 0 ad)) = delayLine ?p1"
    unfolding p2 by (simp add: updateWeights_eq[OF wf1] Let_def)
  have wfin': "list_all is_fin (weights (fst (process_sample p 0 0 ad)))"
  proof (cases ad)
    case True
    from sf[OF True] obtain l where l: "leakageFactor (nlms_config p) = Fin l"
      by (cases "leakageFactor (nlms_config p)") (simp_all add: step_finite_def)
    have "is_fin (Fin l * w)" if "w \<in> set (weights p)" for w
    proof -
      have "is_fin w" using wfin that by (simp add: list_all_iff)
      then show ?thesis by (cases w) simp_all
    qed
    then show ?thesis unfolding wts using True by (simp add: l list_all_iff)
  next
    case False
    then show ?thesis unfolding wts using wfin by simp
  qed
  show "taps_finite (fst (process_sample p 0 0 ad))"
    unfolding taps_finite_def
    using wf_nlms_process_sample[OF wf, of 0 0 ad] wfin' dl1 dl' by simp
  show "silent_history (fst (process_sample p 0 0 ad))" if "silent_history p"
    unfolding silent_history_def dl' using sh1[OF that] .
  show "zero_weights (fst (process_sample p 0 0 ad))" if zw: "zero_weights p"
  proof (cases ad)
    case True
    from sf[OF True] obtain l where l: "leakageFactor (nlms_config p) = Fin l"
      by (cases "leakageFactor (nlms_config p)") (simp_all add: step_finite_def)
    have "Fin l * w = 0" if "w \<in> set (weights p)" for w
    proof -
      have "w = 0" using zw that by (simp add: zero_weights_def list_all_iff)
      then show ?thesis by (simp add: zero_jsnum_def)
    qed
    then show ?thesis
      unfolding zero_weights_def wts using True by (simp add: l list_all_iff)
  next
    case False
    then show ?thesis unfolding zero_weights_def wts using zw by (simp add: zero_weights_def)
  qed
  show "step_finite (fst (process_sample p 0 0 ad))" if adT: ad
  proof -
    obtain r where r: "0 \<le> r" "powerEstimate p = Fin r"
      and u: "updateWeights ?p1 0 =
        ?p1\<lparr>weights := map (\<lambda>w. leakageFactor (nlms_config p) * w) (weights p),
            powerEstimate := Fin (0.95 * r)\<rparr>" using upd[OF adT] by blast
    have pe': "powerEstimate (fst (process_sample p 0 0 ad)) = Fin (0.95 * r)"
      unfolding p2 using adT u by simp
    show ?thesis
      unfolding step_finite_def cfg' pe' using sf[OF adT] r
      by (simp add: step_finite_def zero_jsnum_def)
  qed
qed

lemma silent_upto:
  assumes tf: "taps_finite p"
    and zs: "zero_weights p \<or> silent_history p"
    and sf0: "ad \<longrightarrow> step_finite p"
    and kn: "k \<le> n"
  shows "taps_finite (fst (process_upto (replicate n 0) (replicate n 0) ad k (p, replicate n 0))) \<and>
     (zero_weights (fst (process_upto (replicate n 0) (replicate n 0) ad k (p, replicate n 0))) \<or>
      silent_history (fst (process_upto (replicate n 0) (replicate n 0) ad k (p, replicate n 0)))) \<and>
     (ad \<longrightarrow> step_finite (fst (process_upto (replicate n 0) (replicate n 0) ad k (p, replicate n 0)))) \<and>
     nlms_config (fst (process_upto (replicate n 0) (replicate n 0) ad k (p, replicate n 0))) =
       nlms_config p \<and>
     weights (fst (process_upto (replicate n 0) (replicate n 0) ad k (p, replicate n 0))) =
       (if ad then map (\<lambda>w. leakageFactor (nlms_config p) ^ k * w) (weights p) else weights p) \<and>
     snd (process_upto (replicate n 0) (replicate n 0) ad k (p, replicate n 0)) = replicate n 0"
  using kn
proof (induction k)
  case 0
  have "list_all is_fin (weights p)" using tf by (simp add: taps_finite_def)
  then have "map (\<lambda>w. 1 * w) (weights p) = weights p"
    using leak_power_0[of "weights p" 1] by simp
  then show ?case using tf zs sf0 by simp
next
  case (Suc k)
  let ?q = "fst (process_upto (replicate n 0) (replicate n 0) ad k (p, replicate n 0))"
  from Suc have IH: "taps_finite ?q" "zero_weights ?q \<or> silent_history ?q"
    "ad \<longrightarrow> step_finite ?q" "nlms_config ?q = nlms_config p"
    "weights ?q =
       (if ad then map (\<lambda>w. leakageFactor (nlms_config p) ^ k * w) (weights p) else weights p)"
    "snd (process_upto (replicate n 0) (replicate n 0) ad k (p, replicate n 0)) = replicate n 0"
    by simp_all
  have k: "k < n" using Suc.prems by simp
  then have ag: "aget (replicate n (0::jsnum)) k = 0" by (simp add: aget_def)
  note st = silent_step[OF IH(1) IH(2) IH(3)]
  have wfin: "list_all is_fin (weights p)" using tf by (simp add: taps_finite_def)
  have zs': "zero_weights (fst (process_sample ?q 0 0 ad)) \<or>
      silent_history (fst (process_sample ?q 0 0 ad))"
    using IH(2) st(3) st(4) by blast
  have w': "weights (fst (process_sample ?q 0 0 ad)) =
      (if ad then map (\<lambda>w. leakageFactor (nlms_config p) ^ Suc k * w) (weights p) else weights p)"
  proof (cases ad)
    case True
    then have lf: "is_fin (leakageFactor (nlms_config p))" using sf0 by (simp add: step_finite_def)
    have e1: "weights (fst (process_sample ?q 0 0 ad)) =
        map (\<lambda>w. leakageFactor (nlms_config p) * w) (weights ?q)"
      using st(7)[unfolded IH(4)] by (simp only: True if_True)
    have e2: "weights ?q = map (\<lambda>w. leakageFactor (nlms_config p) ^ k * w) (weights p)"
      using IH(5) by (simp only: True if_True)
    have e3: "map (\<lambda>w. leakageFactor (nlms_config p) * w)
          (map (\<lambda>w. leakageFactor (nlms_config p) ^ k * w) (weights p)) =
        map (\<lambda>w. leakageFactor (nlms_config p) ^ Suc k * w) (weights p)"
      by (rule leak_power_Suc[OF wfin lf])
    show ?thesis unfolding e1 e2 e3 by (simp only: True if_True)
  next
    case False
    then show ?thesis unfolding st(7) IH(5) by simp
  qed
  show ?case
    unfolding process_upto_Suc' ag fst_conv snd_conv
    using st(1) st(2) st(5) st(6) zs' w' IH(4) IH(6) k
    by (simp add: list_update_same_conv del: power_Suc)
qed

lemma silent_process:
  assumes "taps_finite p" and "zero_weights p \<or> silent_history p"
    and "ad \<longrightarrow> step_finite p"
  shows "snd (process p (replicate n 0) (replicate n 0) ad) = replicate n 0"
    and "weights (fst (process p (replicate n 0) (replicate n 0) ad)) =
           (if ad then map (\<lambda>w. leakageFactor (nlms_config p) ^ n * w) (weights p) else weights p)"
  using silent_upto[where k = n and n = n, OF assms le_refl] by (simp_all add: process_eq_upto)

lemma double_talk_blocks_adaptation:
  assumes "dtd_state d = DOUBLE_TALK"
  shows "\<not> snd (dtd_process d nearEndSignal farEndSignal errorSignal)"
  using assms
  by (simp add: dtd_process_def Let_def updateState_def updateCorrelationBuffers_frame
      updatePowerEstimates_frame)

text \<open>The filter constructed with the default configuration meets all four conditions.\<close>

lemma fresh_filter_conditions:
  "taps_finite (initializeFilter NLMSConfig_default) \<and>
   step_finite (initializeFilter NLMSConfig_default) \<and>
   zero_weights (initializeFilter NLMSConfig_default) \<and>
   silent_history (initializeFilter NLMSConfig_default)"
  by (simp add: taps_finite_def step_finite_def zero_weights_def silent_history_def wf_nlms_def
      initializeFilter_def NLMSConfig_default_def jsnum_simps list_all_length)


lemma silent_block_adapts_idle:
  assumes "dtd_state (doubleTalkDetector s) = IDLE"
    and "farEndPower (doubleTalkDetector s) = Fin 0.0000000001"
  shows "silent_block_adapts s 1"
proof -
  have r: "replicate 1 (0::jsnum) = [Fin 0]" by (simp add: zero_jsnum_def)
  have "\<not> farEndPower (updatePowerEstimates (doubleTalkDetector s) [Fin 0] [Fin 0]) > 0.000001"
    unfolding far_one assms(2) by (simp add: jsnum_simps)
  then show ?thesis
    unfolding silent_block_adapts_def r using dtd_idle_quiet(1)[OF assms(1)] by simp
qed



subsection \<open>When the weights are updated\<close>

lemma nlms_one_adapted_eq:
  "nlms_one_adapted =
     \<lparr>nlms_config = NLMSConfig_default\<lparr>filterLength := 1\<rparr>,
      weights = [Fin (0.1 / 0.05000195)], delayLine = [Fin 1],
      powerEstimate = Fin 0.05000095, nlms_writeIndex = 0\<rparr>"
  by (simp add: nlms_one_adapted_def nlms_eval)

lemma processSample_gate:
  "\<not> systemSample * systemSample > 0.000001 \<Longrightarrow>
   adaptiveFilter (fst (processSample s micSample systemSample)) = adaptiveFilter s"
  by (simp add: processSample_def Let_def split_def)

text \<open>
  Claim C1, as amended. In \<open>process\<close> of the NLMS filter the caller's flag alone decides: with
  the flag false the weights are left as they are, and with the flag true the update of the
  specification is applied whatever the reference sample is (there is no test of the
  far-end power). A power gate exists in the worklet's \<open>processSample\<close> only, which takes no
  flag: there the filter taps are left as they are whenever the squared system sample does
  not exceed \<open>0.000001\<close>.
\<close>

theorem weights_updated_on_flag_alone:
  "weights (fst (process_sample p x mic False)) = weights p \<and>
   (wf_nlms p \<longrightarrow>
      weights (fst (process_sample p x mic True)) =
        fst (spec_nlms_step (filterLength (nlms_config p)) (stepSize (nlms_config p))
               (regularization (nlms_config p)) (leakageFactor (nlms_config p))
               (weights p) (powerEstimate p) (reference_vector p x) mic)) \<and>
   (\<not> systemSample * systemSample > 0.000001 \<longrightarrow>
      adaptiveFilter (fst (processSample s micSample systemSample)) = adaptiveFilter s)"
proof (intro conjI impI)
  show "weights (fst (process_sample p x mic False)) = weights p"
    by (simp add: process_sample_def Let_def)
next
  assume "wf_nlms p"
  then show "weights (fst (process_sample p x mic True)) =
        fst (spec_nlms_step (filterLength (nlms_config p)) (stepSize (nlms_config p))
               (regularization (nlms_config p)) (leakageFactor (nlms_config p))
               (weights p) (powerEstimate p) (reference_vector p x) mic)"
    by (simp add: process_sample_adapting split_def)
next
  assume "\<not> systemSample * systemSample > 0.000001"
  then show "adaptiveFilter (fst (processSample s micSample systemSample)) = adaptiveFilter s"
    by (rule processSample_gate)
qed

theorem weights_updated_on_flag_alone_witness:
  "wf_nlms nlms_two \<and>
   weights (fst (process_sample nlms_two (Fin 1) (Fin 1) False)) = [0, 0] \<and>
   weights (fst (process_sample nlms_two (Fin 1) (Fin 1) True)) = [Fin (0.1 / 0.1000029), Fin 0] \<and>
   \<not> Fin 0.001 * Fin 0.001 > (0.000001 :: jsnum) \<and>
   adaptiveFilter (fst (processSample wk_small (Fin 5) (Fin 0.001))) = [Fin 1]"
  using weights_updated_on_flag_alone[of nlms_two "Fin 1" "Fin 1" "Fin 0.001" wk_small "Fin 5"]
    nlms_two_wf
  by (simp add: spec_nlms_step_def reference_vector_def Let_def nlms_two_def initializeFilter_def
      NLMSConfig_default_def jsnum_simps lessThan_Suc numeral_2_eq_2 wk_small_def
      EchoCancellationProcessor_new_def)

text \<open>
  Claim C1 as stated fails on the NLMS filter: after one adapting block the one-tap filter
  has a non-zero weight; a further sample step with the flag true and the reference sample
  0 (far-end power 0, not above \<open>0.000001\<close>) changes that weight.
\<close>

theorem no_power_gate_counterexample:
  "\<not> Fin 0 * Fin 0 > (0.000001 :: jsnum) \<and>
   weights (fst (process_sample nlms_one_adapted (Fin 0) (Fin 0) True)) \<noteq> weights nlms_one_adapted"
  unfolding nlms_one_adapted_eq by (simp add: nlms_eval)

subsection \<open>Leakage while adaptation is disabled\<close>

lemma filterNorm_single: "0 \<le> w \<Longrightarrow> weights p = [Fin w] \<Longrightarrow> filterNorm p = Fin w"
  by (simp add: filterNorm_def zero_jsnum_def)

text \<open>
  Claim C4 as stated fails: one block of one sample with adaptation disabled leaves the
  norm of the adapted one-tap filter at its positive value, which is not at most that value
  times the leakage factor \<open>0.99999\<close>.
\<close>

theorem leakage_not_applied_counterexample:
  "\<not> filterNorm (process_blocks nlms_one_adapted [([Fin 0], [Fin 0])] False)
       \<le> filterNorm nlms_one_adapted * leakageFactor (nlms_config nlms_one_adapted) ^ (1 * 1)"
proof -
  have w: "weights nlms_one_adapted = [Fin (0.1 / 0.05000195)]"
    by (simp add: nlms_one_adapted_eq)
  have n0: "filterNorm nlms_one_adapted = Fin (0.1 / 0.05000195)"
    using w by (intro filterNorm_single) simp_all
  have n1: "filterNorm (process_blocks nlms_one_adapted [([Fin 0], [Fin 0])] False)
      = Fin (0.1 / 0.05000195)"
    using w by (intro filterNorm_single) (simp_all add: process_frozen)
  have lam: "leakageFactor (nlms_config nlms_one_adapted) = Fin 0.99999"
    by (simp add: nlms_one_adapted_eq NLMSConfig_default_def jsnum_simps)
  show ?thesis unfolding n0 n1 lam by (simp add: jsnum_simps)
qed


subsection \<open>Non-finite input\<close>

lemma nan_absorbs: "x * NaN = NaN" "NaN * x = NaN" "x + NaN = NaN" "NaN + x = NaN" "NaN - x = NaN"
  by (cases x; simp add: minus_jsnum_def)+

lemma process_sample_nan_weights:
  assumes "wf_nlms p"
  shows "weights (fst (process_sample p x NaN True)) = replicate (filterLength (nlms_config p)) NaN"
  by (simp add: process_sample_adapting[OF assms] spec_nlms_step_def Let_def split_def nan_absorbs
      map_replicate_const)

text \<open>
  Claim C5, as amended. No sample is tested for finiteness. For every state and block, an
  output sample whose microphone sample is not finite is not finite (so it is not zero),
  and it is NaN where the microphone sample is NaN; the flag is the detector's decision,
  and a sample step with the flag true and a NaN microphone sample writes NaN into every
  weight.
\<close>

theorem non_finite_input_passes_through:
  "(i < length systemAudioData \<and> \<not> is_fin (aget microphoneData i) \<longrightarrow>
      \<not> is_fin (snd (processBlock s microphoneData systemAudioData) ! i)) \<and>
   (i < length systemAudioData \<and> aget microphoneData i = NaN \<longrightarrow>
      snd (processBlock s microphoneData systemAudioData) ! i = NaN) \<and>
   (wf_nlms p \<longrightarrow>
      weights (fst (process_sample p x NaN True)) = replicate (filterLength (nlms_config p)) NaN)"
proof (intro conjI impI)
  assume "i < length systemAudioData \<and> \<not> is_fin (aget microphoneData i)"
  then show "\<not> is_fin (snd (processBlock s microphoneData systemAudioData) ! i)"
    by (simp add: processBlock_unfold process_not_fin)
next
  assume "i < length systemAudioData \<and> aget microphoneData i = NaN"
  then show "snd (processBlock s microphoneData systemAudioData) ! i = NaN"
    by (simp add: processBlock_unfold process_nan)
next
  assume "wf_nlms p"
  then show "weights (fst (process_sample p x NaN True)) =
      replicate (filterLength (nlms_config p)) NaN"
    by (rule process_sample_nan_weights)
qed

lemma d0_facts:
  "dtd_state (DoubleTalkDetector_new DoubleTalkConfig_default) = IDLE"
  "farEndPower (DoubleTalkDetector_new DoubleTalkConfig_default) = Fin 0.0000000001"
  by (simp_all add: DoubleTalkDetector_new_def jsnum_simps)

lemma nan_block_flag:
  "snd (dtd_process (DoubleTalkDetector_new DoubleTalkConfig_default) [NaN] [Fin 0] [0])"
  by (rule dtd_idle_quiet(1)) (simp_all add: d0_facts far_one jsnum_simps)

text \<open>
  Claim C5 as stated fails: the freshly constructed one-tap system, given the block with
  microphone sample NaN and reference sample 0, puts out NaN, its detector enables
  adaptation, and the weight becomes NaN.
\<close>

theorem non_finite_input_counterexample:
  "snd (processBlock system_one [NaN] [Fin 0]) = [NaN] \<and>
   snd (dtd_process (doubleTalkDetector system_one) [NaN] [Fin 0] [0]) \<and>
   weights (nlmsProcessor (fst (processBlock system_one [NaN] [Fin 0]))) = [NaN]"
proof -
  have n: "process nlms_one [Fin 0] [NaN] True =
      (nlms_one\<lparr>weights := [NaN], delayLine := [Fin 0], powerEstimate := Fin 0.00000095\<rparr>, [NaN])"
    by (simp add: nlms_eval)
  show ?thesis
    using nan_block_flag by (simp add: processBlock_unfold system_one_def n)
qed

theorem non_finite_input_passes_through_witness:
  "0 < length [Fin 0] \<and> \<not> is_fin (aget [PInf] 0) \<and>
   \<not> is_fin (snd (processBlock system_one [PInf] [Fin 0]) ! 0) \<and>
   aget [NaN] 0 = NaN \<and> snd (processBlock system_one [NaN] [Fin 0]) ! 0 = NaN \<and>
   wf_nlms nlms_one \<and> weights (fst (process_sample nlms_one (Fin 1) NaN True)) = [NaN]"
proof -
  have wf: "wf_nlms nlms_one"
    by (simp add: wf_nlms_def nlms_one_def initializeFilter_def NLMSConfig_default_def)
  have L: "filterLength (nlms_config nlms_one) = 1"
    by (simp add: nlms_one_def initializeFilter_def NLMSConfig_default_def)
  show ?thesis
    using non_finite_input_passes_through[of 0 "[Fin 0]" "[PInf]" system_one nlms_one "Fin 1"]
      non_finite_input_passes_through[of 0 "[Fin 0]" "[NaN]" system_one nlms_one "Fin 1"] wf L
    by (simp add: aget_def)
qed

subsection \<open>Silence after speech\<close>

lemma system_two_run:
  "nlmsProcessor system_two_after =
     \<lparr>nlms_config = NLMSConfig_default\<lparr>filterLength := 2\<rparr>,
      weights = [Fin (589997 / 9000000), Fin (29 / 900)],
      delayLine = [Fin 0.001, Fin 0.001],
      powerEstimate = Fin 0.000001, nlms_writeIndex = 0\<rparr>"
  "dtd_state (doubleTalkDetector system_two_after) = IDLE"
  "farEndPower (doubleTalkDetector system_two_after) = Fin 0.00000009759025"
proof -
  define d0 where "d0 = DoubleTalkDetector_new DoubleTalkConfig_default"
  define x where "x = [Fin 0.001]"
  define d1 where "d1 = fst (dtd_process d0 x x [0])"
  define d2 where "d2 = fst (dtd_process d1 x x [0])"
  define p1 where "p1 = \<lparr>nlms_config = NLMSConfig_default\<lparr>filterLength := 2\<rparr>,
        weights = [Fin (1 / 30), Fin 0], delayLine = [Fin 0.001, Fin 0],
        powerEstimate = Fin 0.000001, nlms_writeIndex = 1\<rparr>"
  define p2 where "p2 = \<lparr>nlms_config = NLMSConfig_default\<lparr>filterLength := 2\<rparr>,
        weights = [Fin (589997 / 9000000), Fin (29 / 900)],
        delayLine = [Fin 0.001, Fin 0.001],
        powerEstimate = Fin 0.000001, nlms_writeIndex = 0\<rparr>"
  have d0: "dtd_state d0 = IDLE" "farEndPower d0 = Fin 0.0000000001"
    by (simp_all add: d0_def d0_facts)
  have far: "farEndPower (updatePowerEstimates d x x) = Fin 0.95 * farEndPower d + Fin 0.00000005"
    for d unfolding x_def far_one by simp
  have q1: "\<not> farEndPower (updatePowerEstimates d0 x x) > 0.000001"
    unfolding far d0 by (simp add: jsnum_simps)
  have f1: "snd (dtd_process d0 x x [0])" "dtd_state d1 = IDLE"
    "farEndPower d1 = Fin 0.000000050095"
    using dtd_idle_quiet[OF d0(1) q1, of "[0]"] unfolding d1_def far d0 by simp_all
  have q2: "\<not> farEndPower (updatePowerEstimates d1 x x) > 0.000001"
    unfolding far f1 by (simp add: jsnum_simps)
  have f2: "snd (dtd_process d1 x x [0])" "dtd_state d2 = IDLE"
    "farEndPower d2 = Fin 0.00000009759025"
    using dtd_idle_quiet[OF f1(2) q2, of "[0]"] unfolding d2_def far f1 by simp_all
  have n1: "process nlms_two x x True = (p1, [Fin 0.001])"
    unfolding x_def p1_def by (simp add: nlms_eval)
  have n2: "process p1 x x True = (p2, [Fin (29 / 30000)])"
    unfolding x_def p1_def p2_def by (simp add: nlms_eval)
  have lx: "replicate (length x) 0 = [0::jsnum]" by (simp add: x_def)
  have s1: "fst (processBlock system_two x x) = \<lparr>nlmsProcessor = p1, doubleTalkDetector = d1\<rparr>"
    using f1(1) by (simp add: processBlock_unfold system_two_def n1 d0_def[symmetric] d1_def lx)
  have "system_two_after = fst (processBlock (fst (processBlock system_two x x)) x x)"
    by (simp add: system_two_after_def x_def)
  then have s2: "system_two_after = \<lparr>nlmsProcessor = p2, doubleTalkDetector = d2\<rparr>"
    unfolding s1 using f2(1) by (simp add: processBlock_unfold n2 d2_def lx)
  show "nlmsProcessor system_two_after =
     \<lparr>nlms_config = NLMSConfig_default\<lparr>filterLength := 2\<rparr>,
      weights = [Fin (589997 / 9000000), Fin (29 / 900)],
      delayLine = [Fin 0.001, Fin 0.001],
      powerEstimate = Fin 0.000001, nlms_writeIndex = 0\<rparr>"
    by (simp add: s2 p2_def)
  show "dtd_state (doubleTalkDetector system_two_after) = IDLE"
    by (simp add: s2 f2)
  show "farEndPower (doubleTalkDetector system_two_after) = Fin 0.00000009759025"
    by (simp add: s2 f2)
qed


section \<open>The delay estimator\<close>

lemma fold_corr:
  "fold (\<lambda>i (c, n). (c + Fin (g i), n + 1)) xs (Fin c0, n0) =
     (Fin (c0 + sum_list (map g xs)), n0 + length xs)"
  by (induction xs arbitrary: c0 n0) (simp_all add: add.assoc)

lemma correlationAt_spec:
  "correlationAt (map Fin mic) (map Fin ref) k = (Fin (spec_r mic ref k), spec_count mic ref k)"
proof -
  let ?b = "min (length mic) (length ref + k)"
  have "fold (\<lambda>i (correlation, count).
             (correlation + aget (map Fin mic) i * aget (map Fin ref) (i - k), count + 1))
          [k..<?b] (Fin 0, 0)
      = fold (\<lambda>i (c, n). (c + Fin (mic ! i * ref ! (i - k)), n + 1)) [k..<?b] (Fin 0, 0)"
    by (rule fold_cong) (auto simp: aget_def)
  also have "\<dots> = (Fin (0 + sum_list (map (\<lambda>i. mic ! i * ref ! (i - k)) [k..<?b])), 0 + length [k..<?b])"
    by (rule fold_corr)
  also have "\<dots> = (Fin (spec_r mic ref k), spec_count mic ref k)"
    by (simp add: spec_r_def spec_count_def interv_sum_list_conv_sum_set_nat)
  finally show ?thesis by (simp add: correlationAt_def zero_jsnum_def)
qed

text \<open>\<open>spec_argmax\<close> is the first position of the maximum.\<close>

lemma spec_argmax_first_maximum:
  assumes "0 < n"
  shows "spec_argmax f n < n \<and> (\<forall>k<n. f k \<le> f (spec_argmax f n)) \<and>
         (\<forall>k<spec_argmax f n. f k < f (spec_argmax f n))"
  using assms
proof (induction n)
  case 0
  then show ?case by simp
next
  case (Suc n)
  show ?case
  proof (cases "n = 0")
    case True
    then show ?thesis by simp
  next
    case False
    then have IH: "spec_argmax f n < n" "\<forall>k<n. f k \<le> f (spec_argmax f n)"
      "\<forall>k<spec_argmax f n. f k < f (spec_argmax f n)"
      using Suc.IH by simp_all
    show ?thesis
    proof (cases "f n > f (spec_argmax f n)")
      case True
      then show ?thesis using IH by (auto simp: Let_def less_Suc_eq intro: le_less_trans order.strict_implies_order)
    next
      case False
      then show ?thesis using IH by (auto simp: Let_def less_Suc_eq)
    qed
  qed
qed


lemma bestDelay_upto_Suc:
  "bestDelay_upto mic sys (Suc n) =
     (let (maxCorrelation, bestDelay) = bestDelay_upto mic sys n;
          (correlation, count) = correlationAt mic sys n in
      if count > 0
      then (let correlation = correlation / num_of_nat count in
            if \<bar>correlation\<bar> > \<bar>maxCorrelation\<bar>
            then (correlation, n) else (maxCorrelation, bestDelay))
      else (maxCorrelation, bestDelay))"
  by (simp add: bestDelay_upto_def split_def Let_def)

lemma bestDelay_step:
  assumes "bestDelay_upto (map Fin mic) (map Fin ref) n = (Fin c, b)"
  shows "bestDelay_upto (map Fin mic) (map Fin ref) (Suc n) =
     (if \<bar>spec_r mic ref n\<bar> / real (spec_count mic ref n) > \<bar>c\<bar>
      then (Fin (spec_r mic ref n / real (spec_count mic ref n)), n) else (Fin c, b))"
  unfolding bestDelay_upto_Suc assms
  by (simp add: correlationAt_spec Let_def num_of_nat_def abs_divide)

lemma bestDelay_upto_spec:
  defines "f \<equiv> \<lambda>mic ref k. \<bar>spec_r mic ref k\<bar> / real (spec_count mic ref k)"
  shows "\<exists>c. bestDelay_upto (map Fin mic) (map Fin ref) n = (Fin c, spec_argmax (f mic ref) n) \<and>
             (if n = 0 then c = 0 else \<bar>c\<bar> = f mic ref (spec_argmax (f mic ref) n))"
proof (induction n)
  case 0
  show ?case by (simp add: bestDelay_upto_def zero_jsnum_def)
next
  case (Suc n)
  then obtain c where c: "bestDelay_upto (map Fin mic) (map Fin ref) n = (Fin c, spec_argmax (f mic ref) n)"
    and cv: "if n = 0 then c = 0 else \<bar>c\<bar> = f mic ref (spec_argmax (f mic ref) n)"
    by blast
  let ?b = "spec_argmax (f mic ref) n"
  have step: "bestDelay_upto (map Fin mic) (map Fin ref) (Suc n) =
      (if f mic ref n > \<bar>c\<bar> then (Fin (spec_r mic ref n / real (spec_count mic ref n)), n)
       else (Fin c, ?b))"
    using bestDelay_step[OF c] by (simp add: f_def)
  have fabs: "f mic ref n = \<bar>spec_r mic ref n / real (spec_count mic ref n)\<bar>"
    by (simp add: f_def abs_divide)
  have fnn: "0 \<le> f mic ref k" for k by (simp add: f_def)
  show ?case
  proof (cases "n = 0")
    case True
    then have c0: "c = 0" using cv by simp
    show ?thesis
    proof (cases "f mic ref 0 > 0")
      case True
      then show ?thesis using step \<open>n = 0\<close> c0 fabs by (intro exI[of _ "spec_r mic ref 0 / real (spec_count mic ref 0)"]) simp
    next
      case False
      then have "f mic ref 0 = 0" using fnn[of 0] by simp
      then show ?thesis using step \<open>n = 0\<close> c0 by (intro exI[of _ 0]) simp
    qed
  next
    case False
    then have cabs: "\<bar>c\<bar> = f mic ref ?b" using cv by simp
    show ?thesis
    proof (cases "f mic ref n > f mic ref ?b")
      case True
      then show ?thesis using step cabs fabs
        by (intro exI[of _ "spec_r mic ref n / real (spec_count mic ref n)"]) (simp add: Let_def)
    next
      case False
      then show ?thesis using step cabs False \<open>n \<noteq> 0\<close>
        by (intro exI[of _ c]) (simp add: Let_def)
    qed
  qed
qed

lemma estimateDelay_spec:
  "estimateDelay (Fin d) (map Fin mic) (map Fin ref) =
     (case spec_estimateDelay (min 480 (length mic div 2)) d mic ref of
        (d', r) \<Rightarrow> (Fin d', Fin (of_int r)))"
proof -
  obtain c where "bestDelay_upto (map Fin mic) (map Fin ref) (min 480 (length mic div 2)) =
      (Fin c, spec_argmax (\<lambda>k. \<bar>spec_r mic ref k\<bar> / real (spec_count mic ref k))
                 (min 480 (length mic div 2)))"
    using bestDelay_upto_spec[of mic ref "min 480 (length mic div 2)"] by blast
  moreover have "Fin d * (1 - 0.1) + num_of_nat k * 0.1 = Fin ((1 - 0.1) * d + 0.1 * real k)"
    for k by (simp add: jsnum_simps algebra_simps)
  ultimately show ?thesis
    by (simp add: estimateDelay_def spec_estimateDelay_def Let_def round_def)
qed


text \<open>
  Claim C6, as amended. For finite samples and a finite current estimate, one call of
  \<open>estimateDelay\<close> on a block of \<open>N\<close> samples is the update of the specification taken over
  the lags \<open>0, \<dots>, min(480, N div 2) - 1\<close>: it selects the first lag \<open>k\<^sup>*\<close> in that range
  that maximises \<open>|r(k)| / count(k)\<close>, stores \<open>(1 - 0.1) d + 0.1 k\<^sup>*\<close> and returns its
  rounding.
\<close>

theorem delay_estimate_over_half_block:
  "estimateDelay (Fin d) (map Fin mic) (map Fin ref) =
     (case spec_estimateDelay (min 480 (length mic div 2)) d mic ref of
        (d', r) \<Rightarrow> (Fin d', Fin (of_int r)))"
  by (rule estimateDelay_spec)

lemma impulse_nth: "i < n \<Longrightarrow> impulse n k ! i = (if i = k then 1 else 0)"
  by (simp add: impulse_def nth_list_update)

lemma impulse_length [simp]: "length (impulse n k) = n"
  by (simp add: impulse_def)

lemma spec_r_impulse:
  assumes "a < n"
  shows "spec_r (impulse n a) (impulse n 0) k = (if k = a then 1 else 0)"
proof -
  have "spec_r (impulse n a) (impulse n 0) k =
      (\<Sum>i = k..<n. impulse n a ! i * impulse n 0 ! (i - k))"
    by (simp add: spec_r_def)
  also have "\<dots> = (\<Sum>i = k..<n. if i = k then (if k = a then 1 else 0) else 0)"
    by (rule sum.cong) (auto simp: impulse_nth)
  also have "\<dots> = (if k = a then 1 else 0)"
    using assms by simp
  finally show ?thesis .
qed

lemma spec_count_impulse: "spec_count (impulse n a) (impulse n b) k = n - k"
  by (simp add: spec_count_def)

lemma spec_argmax_single:
  assumes "\<And>k. k \<noteq> a \<Longrightarrow> f k = 0" and "0 < f a"
  shows "spec_argmax f D = (if a < D then a else 0)"
proof (induction D)
  case 0
  then show ?case by simp
next
  case (Suc D)
  show ?case
  proof (cases "D = a")
    case True
    then show ?thesis using Suc assms by (cases "a = 0") (simp_all add: Let_def)
  next
    case False
    then have "f D = 0" using assms(1) by simp
    moreover have "0 \<le> f (spec_argmax f D)"
      using Suc assms by (cases "a < D"; cases "a = 0") (simp_all add: order.strict_implies_order)
    ultimately show ?thesis using Suc False by (simp add: Let_def less_Suc_eq)
  qed
qed

lemma impulse_argmax:
  "spec_argmax (\<lambda>k. \<bar>spec_r (impulse 128 100) (impulse 128 0) k\<bar> /
                      real (spec_count (impulse 128 100) (impulse 128 0) k)) D =
     (if 100 < D then 100 else 0)"
  by (rule spec_argmax_single) (simp_all add: spec_r_impulse spec_count_impulse)

text \<open>
  Claim C6 as stated fails: for a block of 128 samples in which the microphone repeats the
  reference impulse 100 samples later, the search over the lags 0 to 480 finds lag 100 and
  exposes 10, but the code searches the lags below 64 only, finds no correlation, and
  exposes 0.
\<close>

theorem delay_beyond_half_block_counterexample:
  "snd (spec_estimateDelay 481 0 (impulse 128 100) (impulse 128 0)) = 10 \<and>
   snd (estimateDelay (Fin 0) (map Fin (impulse 128 100)) (map Fin (impulse 128 0))) = Fin 0"
  by (simp add: estimateDelay_spec spec_estimateDelay_def impulse_argmax Let_def)

end
